theory Spec2Isabelle
  imports Main "HOL-Library.Sublist"
begin

section \<open>The schema as the generator sees it\<close>

text \<open>
  The generator (src/index.js) reads a compiled GraphQL schema through four operations:
  \<^verbatim>\<open>gqlSchema.getType(name)\<close>, \<^verbatim>\<open>type.getFields()\<close>, \<^verbatim>\<open>type.getTypes()\<close> and the
  properties of a field (\<^verbatim>\<open>name\<close>, \<^verbatim>\<open>type\<close>, \<^verbatim>\<open>args\<close>, \<^verbatim>\<open>isDeprecated\<close>).
  A type is a leaf (scalar or enum: it has no \<^verbatim>\<open>getFields\<close> and is no union), an object
  or interface (\<^verbatim>\<open>getFields()\<close> lists its fields in declaration order) or a union
  (\<^verbatim>\<open>getTypes()\<close> lists its member types in declaration order). The type map and the
  field maps of graphql-js are keyed by name; a type object used as a key is converted
  to its name, so every lookup below is by name. A schema is the list of its named types
  and an object type the list of its fields, both searched from the left; in a schema
  built by graphql-js no two types and, within a type, no two fields have the same name.
\<close>

record argument =
  arg_name :: string
  arg_type :: string

record field =
  field_name :: string
  field_type :: string
  field_args :: "argument list"
  isDeprecated :: bool

datatype gqlType =
    LeafType
  | ObjectType "field list"
  | UnionType "string list"

type_synonym gqlSchema = "(string \<times> gqlType) list"

definition getType :: "gqlSchema \<Rightarrow> string \<Rightarrow> gqlType option" where
  "getType sch n = map_of sch n"

fun lookupField :: "field list \<Rightarrow> string \<Rightarrow> field option" where
  "lookupField [] n = None"
| "lookupField (f # fs) n = (if field_name f = n then Some f else lookupField fs n)"

text \<open>\<^verbatim>\<open>gqlSchema.getType(t).getFields()[n]\<close>; \<open>None\<close> where JavaScript raises a TypeError
  on the next property access (unknown type, a type without \<^verbatim>\<open>getFields\<close>, unknown field).\<close>

definition getField :: "gqlSchema \<Rightarrow> string \<Rightarrow> string \<Rightarrow> field option" where
  "getField sch t n =
     (case getType sch t of
        Some (ObjectType fs) \<Rightarrow> lookupField fs n
      | _ \<Rightarrow> None)"

text \<open>\<^verbatim>\<open>field.type.inspect().replace(/[[\]!]/g, '')\<close>\<close>

definition stripWrappers :: "string \<Rightarrow> string" where
  "stripWrappers s = filter (\<lambda>c. c \<noteq> CHR ''['' \<and> c \<noteq> CHR '']'' \<and> c \<noteq> CHR ''!'') s"

section \<open>Strings\<close>

text \<open>\<^verbatim>\<open>xs.join(sep)\<close>\<close>

fun joinWith :: "string \<Rightarrow> string list \<Rightarrow> string" where
  "joinWith sep [] = []"
| "joinWith sep [x] = x"
| "joinWith sep (x # y # ys) = x @ sep @ joinWith sep (y # ys)"

text \<open>\<^verbatim>\<open>'    '.repeat(n)\<close>\<close>

definition indent :: "nat \<Rightarrow> string" where
  "indent n = concat (replicate n ''    '')"

text \<open>The decimal numeral of a number, as a template literal prints it.\<close>

fun showNat :: "nat \<Rightarrow> string" where
  "showNat n =
     (if n < 10 then [''0123456789'' ! n]
      else showNat (n div 10) @ [''0123456789'' ! (n mod 10)])"

declare showNat.simps [simp del]

text \<open>\<^verbatim>\<open>description.toLowerCase()\<close> on ASCII letters.\<close>

definition lowerChar :: "char \<Rightarrow> char" where
  "lowerChar c =
     (case List.find (\<lambda>p. fst p = c) (zip ''ABCDEFGHIJKLMNOPQRSTUVWXYZ'' ''abcdefghijklmnopqrstuvwxyz'') of
        Some p \<Rightarrow> snd p
      | None \<Rightarrow> c)"

definition toLowerCase :: "string \<Rightarrow> string" where
  "toLowerCase s = map lowerChar s"

section \<open>Plain objects used as dictionaries\<close>

text \<open>
  \<^verbatim>\<open>argumentsDict\<close>, \<^verbatim>\<open>duplicateArgCounts\<close> and the accumulator of \<^verbatim>\<open>reduce\<close> are object
  literals \<^verbatim>\<open>{}\<close>. Their own properties are kept here as an association list in insertion
  order (the order \<^verbatim>\<open>Object.entries\<close> lists them in; keys are GraphQL names followed by
  an index, never integer-like). An object literal also inherits the properties of
  \<^verbatim>\<open>Object.prototype\<close>, and both \<^verbatim>\<open>k in obj\<close> and \<^verbatim>\<open>obj[k]\<close> see them.
  \<open>inheritedText k\<close> is the string JavaScript (Node.js) converts the inherited value to.
\<close>

definition inheritedText :: "string \<Rightarrow> string option" where
  "inheritedText k =
     (if k = ''constructor'' then Some ''function Object() { [native code] }''
      else if k \<in> set [''toString'', ''toLocaleString'', ''valueOf'', ''hasOwnProperty'',
                        ''isPrototypeOf'', ''propertyIsEnumerable'', ''__defineGetter__'',
                        ''__defineSetter__'', ''__lookupGetter__'', ''__lookupSetter__'']
        then Some (''function '' @ k @ ''() { [native code] }'')
      else if k = ''__proto__'' then Some ''[object Object]''
      else None)"

text \<open>A value held by \<^verbatim>\<open>duplicateArgCounts\<close>: a number, or the string that \<^verbatim>\<open>+ 1\<close> makes of
  an inherited property.\<close>

datatype jsval = Num nat | Str string

text \<open>\<^verbatim>\<open>v + 1\<close>: addition on a number, concatenation with \<^verbatim>\<open>"1"\<close> on anything else.\<close>

fun plusOne :: "jsval \<Rightarrow> jsval" where
  "plusOne (Num n) = Num (n + 1)"
| "plusOne (Str s) = Str (s @ ''1'')"

fun showVal :: "jsval \<Rightarrow> string" where
  "showVal (Num n) = showNat n"
| "showVal (Str s) = s"

text \<open>\<^verbatim>\<open>k in counts\<close> together with \<^verbatim>\<open>counts[k]\<close>: the own property first, then the
  inherited one; \<open>None\<close> when \<^verbatim>\<open>k in counts\<close> is false.\<close>

definition getProperty :: "(string \<times> jsval) list \<Rightarrow> string \<Rightarrow> jsval option" where
  "getProperty obj k =
     (case map_of obj k of
        Some v \<Rightarrow> Some v
      | None \<Rightarrow> map_option Str (inheritedText k))"

text \<open>Whether \<^verbatim>\<open>obj[k]\<close> is truthy: an own property holds an argument object, an
  inherited one a function or object.\<close>

definition truthyProperty :: "(string \<times> 'v) list \<Rightarrow> string \<Rightarrow> bool" where
  "truthyProperty obj k = (map_of obj k \<noteq> None \<or> inheritedText k \<noteq> None)"

text \<open>\<^verbatim>\<open>obj[k] = v\<close> on own properties: an existing key keeps its position.\<close>

fun setProperty :: "(string \<times> 'v) list \<Rightarrow> string \<Rightarrow> 'v \<Rightarrow> (string \<times> 'v) list" where
  "setProperty [] k v = [(k, v)]"
| "setProperty ((k', v') # obj) k v =
     (if k' = k then (k, v) # obj else (k', v') # setProperty obj k v)"

text \<open>\<^verbatim>\<open>counts[k] = v\<close> where \<open>v\<close> is a number or a string: the setter of \<^verbatim>\<open>__proto__\<close>
  ignores a value that is not an object, every other key is stored.\<close>

definition setCount :: "(string \<times> jsval) list \<Rightarrow> string \<Rightarrow> jsval \<Rightarrow> (string \<times> jsval) list" where
  "setCount counts k v = (if k = ''__proto__'' then counts else setProperty counts k v)"

text \<open>\<^verbatim>\<open>Object.assign(target, source)\<close>\<close>

definition objectAssign :: "(string \<times> 'v) list \<Rightarrow> (string \<times> 'v) list \<Rightarrow> (string \<times> 'v) list" where
  "objectAssign target source = foldl (\<lambda>t (k, v). setProperty t k v) target source"

section \<open>The argument binder\<close>

text \<open>
  One step of the \<^verbatim>\<open>reduce\<close> in \<^verbatim>\<open>getFieldArgsDict\<close>. \<^verbatim>\<open>duplicateArgCountsCopy\<close> is the same
  object as \<^verbatim>\<open>duplicateArgCounts\<close>, so the counters are threaded through the steps;
  \<^verbatim>\<open>allArgsDict\<close> is only read.
\<close>

fun bindArg ::
  "(string \<times> argument) list \<Rightarrow> (string \<times> jsval) list \<times> (string \<times> argument) list \<Rightarrow> argument
     \<Rightarrow> (string \<times> jsval) list \<times> (string \<times> argument) list" where
  "bindArg allArgsDict (duplicateArgCounts, oCopy) arg =
     (case getProperty duplicateArgCounts (arg_name arg) of
        Some v \<Rightarrow>
          let index = plusOne v in
          (setCount duplicateArgCounts (arg_name arg) index,
           setProperty oCopy (arg_name arg @ showVal index) arg)
      | None \<Rightarrow>
          if truthyProperty allArgsDict (arg_name arg)
          then (setCount duplicateArgCounts (arg_name arg) (Num 1),
                setProperty oCopy (arg_name arg @ ''1'') arg)
          else (duplicateArgCounts, setProperty oCopy (arg_name arg) arg))"

text \<open>\<^verbatim>\<open>getFieldArgsDict(field, duplicateArgCounts, allArgsDict)\<close>: the updated counters and
  the field's own dictionary.\<close>

definition getFieldArgsDict ::
  "field \<Rightarrow> (string \<times> jsval) list \<Rightarrow> (string \<times> argument) list
     \<Rightarrow> (string \<times> jsval) list \<times> (string \<times> argument) list" where
  "getFieldArgsDict fld duplicateArgCounts allArgsDict =
     foldl (bindArg allArgsDict) (duplicateArgCounts, []) (field_args fld)"

definition getArgsToVarsStr :: "(string \<times> argument) list \<Rightarrow> string" where
  "getArgsToVarsStr dict =
     joinWith '', '' (map (\<lambda>(varName, arg). arg_name arg @ '': $'' @ varName) dict)"

definition getVarsToTypesStr :: "(string \<times> argument) list \<Rightarrow> string" where
  "getVarsToTypesStr dict =
     joinWith '', '' (map (\<lambda>(varName, arg). ''$'' @ varName @ '': '' @ arg_type arg) dict)"

section \<open>The selection generator\<close>

text \<open>
  The module-wide configuration that \<^verbatim>\<open>gqlGenerate\<close> sets before any query is generated.
\<close>

record config =
  depthLimit :: int
  excludeNestedArgs :: bool
  includeDeprecatedFields :: bool

text \<open>
  \<^verbatim>\<open>argumentsDict\<close>, \<^verbatim>\<open>duplicateArgCounts\<close> and \<^verbatim>\<open>crossReferenceKeyList\<close> are created once
  per root field (the default parameters of the outermost call) and the same three
  objects are handed to every recursive call, which mutates them in place. The model
  passes them as a state and returns the state updated.
\<close>

record genState =
  argumentsDict :: "(string \<times> argument) list"
  duplicateArgCounts :: "(string \<times> jsval) list"
  crossReferenceKeyList :: "string list"

datatype error = TypeError

text \<open>
  \<^verbatim>\<open>generateQuery\<close> returns the bare string \<^verbatim>\<open>''\<close> at the cycle and depth cut-off and the
  object \<^verbatim>\<open>{ queryStr, argumentsDict }\<close> everywhere else.
\<close>

datatype queryResult = EmptyString | QueryResult string

text \<open>\<^verbatim>\<open>result.queryStr\<close>: \<^verbatim>\<open>undefined\<close> on the bare string.\<close>

fun queryStrOf :: "queryResult \<Rightarrow> string option" where
  "queryStrOf EmptyString = None"
| "queryStrOf (QueryResult s) = Some s"

text \<open>\<^verbatim>\<open>.filter(cur => Boolean(cur)).join('\\n')\<close> over the mapped results.\<close>

fun truthyStr :: "string option \<Rightarrow> bool" where
  "truthyStr None = False"
| "truthyStr (Some s) = (s \<noteq> [])"

definition joinTruthy :: "queryResult list \<Rightarrow> string" where
  "joinTruthy rs = joinWith ''\<newline>'' (map the (filter truthyStr (map queryStrOf rs)))"

text \<open>
  An outcome is \<open>None\<close> when the recursion budget is used up (the call has not returned),
  \<open>Some (Inl e)\<close> when an exception was thrown and \<open>Some (Inr (v, st))\<close> when the call
  returned \<open>v\<close> and left the shared objects in state \<open>st\<close>.
\<close>

type_synonym 'a outcome = "(error + 'a \<times> genState) option"

text \<open>\<^verbatim>\<open>keys.map(cur => gen(cur))\<close>, left to right, each call seeing the mutations of the
  calls before it.\<close>

fun mapGen :: "('a \<Rightarrow> genState \<Rightarrow> 'b outcome) \<Rightarrow> 'a list \<Rightarrow> genState \<Rightarrow> ('b list) outcome" where
  "mapGen gen [] st = Some (Inr ([], st))"
| "mapGen gen (x # xs) st =
     (case gen x st of
        None \<Rightarrow> None
      | Some (Inl e) \<Rightarrow> Some (Inl e)
      | Some (Inr (y, st1)) \<Rightarrow>
          (case mapGen gen xs st1 of
             None \<Rightarrow> None
           | Some (Inl e) \<Rightarrow> Some (Inl e)
           | Some (Inr (ys, st2)) \<Rightarrow> Some (Inr (y # ys, st2))))"

text \<open>
  Lines 106 to 117: the field's own line. \<open>hasFields\<close> is the truth value of
  \<^verbatim>\<open>curType.getFields\<close>.
\<close>

definition renderField ::
  "config \<Rightarrow> field \<Rightarrow> nat \<Rightarrow> bool \<Rightarrow> string \<Rightarrow> genState \<Rightarrow> string \<times> genState" where
  "renderField cfg fld curDepth hasFields childQuery st =
     (if \<not> (hasFields \<and> childQuery = [])
      then
        let queryStr = indent curDepth @ field_name fld;
            (queryStr1, st1) =
              (if length (field_args fld) > 0 \<and> (curDepth \<le> 1 \<or> \<not> excludeNestedArgs cfg)
               then
                 let (counts, dict) = getFieldArgsDict fld (duplicateArgCounts st) (argumentsDict st)
                 in (queryStr @ ''('' @ getArgsToVarsStr dict @ '')'',
                     st\<lparr>argumentsDict := objectAssign (argumentsDict st) dict,
                        duplicateArgCounts := counts\<rparr>)
               else (queryStr, st))
        in (if childQuery \<noteq> []
            then queryStr1 @ ''{\<newline>'' @ childQuery @ ''\<newline>'' @ indent curDepth @ ''}''
            else queryStr1, st1)
      else ([], st))"

text \<open>
  Lines 127 to 140: the loop over the member types of a union. \<open>gen cur valueTypeName\<close>
  stands for the recursive call
  \<^verbatim>\<open>generateQuery(cur, valueType, curName, ..., curDepth + 2, true)\<close>.
  The fields of a member type are not filtered for deprecation.
\<close>

fun unionLoop ::
  "(string \<Rightarrow> string \<Rightarrow> genState \<Rightarrow> queryResult outcome) \<Rightarrow> gqlSchema \<Rightarrow> string
     \<Rightarrow> string list \<Rightarrow> string \<Rightarrow> genState \<Rightarrow> string outcome" where
  "unionLoop gen sch fragIndent [] queryStr st = Some (Inr (queryStr, st))"
| "unionLoop gen sch fragIndent (valueTypeName # types) queryStr st =
     (case getType sch valueTypeName of
        Some (ObjectType fs) \<Rightarrow>
          (case mapGen (\<lambda>cur. gen cur valueTypeName) (map field_name fs) st of
             None \<Rightarrow> None
           | Some (Inl e) \<Rightarrow> Some (Inl e)
           | Some (Inr (rs, st1)) \<Rightarrow>
               let unionChildQuery = joinTruthy rs in
               unionLoop gen sch fragIndent types
                 (if unionChildQuery \<noteq> []
                  then queryStr @ fragIndent @ ''... on '' @ valueTypeName @ '' {\<newline>''
                         @ unionChildQuery @ ''\<newline>'' @ fragIndent @ ''}\<newline>''
                  else queryStr) st1)
      | _ \<Rightarrow> Some (Inl TypeError))"

text \<open>Lines 119 to 143.\<close>

definition unionPart ::
  "(string \<Rightarrow> string \<Rightarrow> genState \<Rightarrow> queryResult outcome) \<Rightarrow> gqlSchema \<Rightarrow> gqlType \<Rightarrow> nat
     \<Rightarrow> string \<Rightarrow> genState \<Rightarrow> string outcome" where
  "unionPart gen sch curType curDepth queryStr st =
     (case curType of
        UnionType types \<Rightarrow>
          if types \<noteq> []
          then
            (case unionLoop gen sch (indent (curDepth + 1)) types (queryStr @ ''{\<newline>'') st of
               None \<Rightarrow> None
             | Some (Inl e) \<Rightarrow> Some (Inl e)
             | Some (Inr (queryStr1, st1)) \<Rightarrow> Some (Inr (queryStr1 @ indent curDepth @ ''}'', st1)))
          else Some (Inr (queryStr, st))
      | _ \<Rightarrow> Some (Inr (queryStr, st)))"

text \<open>Line 95 to 99: the deprecation filter on the child keys.\<close>

definition childKeys :: "config \<Rightarrow> field list \<Rightarrow> string list" where
  "childKeys cfg fs =
     filter (\<lambda>fieldName.
               case lookupField fs fieldName of
                 Some fieldSchema \<Rightarrow> includeDeprecatedFields cfg \<or> \<not> isDeprecated fieldSchema
               | None \<Rightarrow> False)
       (map field_name fs)"

text \<open>Line 88: the key of the edge from the parent field to the current field.\<close>

definition crossReferenceKey :: "string \<Rightarrow> string \<Rightarrow> string" where
  "crossReferenceKey curParentName curName = curParentName @ ''To'' @ curName @ ''Key''"

text \<open>
  \<^verbatim>\<open>generateQuery\<close>. The first numeric argument is the recursion budget: each nested call
  uses one unit, and the budget is not part of the program.
\<close>

fun generateQuery ::
  "config \<Rightarrow> gqlSchema \<Rightarrow> nat \<Rightarrow> string \<Rightarrow> string \<Rightarrow> string \<Rightarrow> nat \<Rightarrow> bool \<Rightarrow> genState
     \<Rightarrow> queryResult outcome" where
  "generateQuery cfg sch 0 curName curParentType curParentName curDepth fromUnion st = None"
| "generateQuery cfg sch (Suc fuel) curName curParentType curParentName curDepth fromUnion st =
     (case getField sch curParentType curName of
        None \<Rightarrow> Some (Inl TypeError)
      | Some fld \<Rightarrow>
          let curTypeName = stripWrappers (field_type fld) in
          (case getType sch curTypeName of
             None \<Rightarrow> Some (Inl TypeError)
           | Some curType \<Rightarrow>
               let unions = unionPart
                     (\<lambda>cur valueTypeName.
                        generateQuery cfg sch fuel cur valueTypeName curName (curDepth + 2) True)
                     sch curType curDepth
               in
               (case curType of
                  ObjectType fs \<Rightarrow>
                    let key = crossReferenceKey curParentName curName in
                    if key \<in> set (crossReferenceKeyList st)
                       \<or> (if fromUnion then int curDepth - 2 else int curDepth) > depthLimit cfg
                    then Some (Inr (EmptyString, st))
                    else
                      let st1 = (if \<not> fromUnion
                                 then st\<lparr>crossReferenceKeyList := crossReferenceKeyList st @ [key]\<rparr>
                                 else st)
                      in
                      (case mapGen
                              (\<lambda>cur. generateQuery cfg sch fuel cur curTypeName curName (curDepth + 1) fromUnion)
                              (childKeys cfg fs) st1 of
                         None \<Rightarrow> None
                       | Some (Inl e) \<Rightarrow> Some (Inl e)
                       | Some (Inr (rs, st2)) \<Rightarrow>
                           let (queryStr, st3) = renderField cfg fld curDepth True (joinTruthy rs) st2 in
                           map_option (map_sum id (map_prod QueryResult id)) (unions queryStr st3))
                | _ \<Rightarrow>
                    let (queryStr, st3) = renderField cfg fld curDepth False [] st in
                    map_option (map_sum id (map_prod QueryResult id)) (unions queryStr st3))))"

text \<open>
  The body of the \<^verbatim>\<open>forEach\<close> in \<^verbatim>\<open>generateFile\<close> for one root field \<open>type\<close> of the root
  operation type \<open>description\<close>: the text written to the field's file, or nothing for a
  deprecated root field. \<^verbatim>\<open>curParentName\<close> is left out by the call and prints as
  \<^verbatim>\<open>undefined\<close> in the edge key. When \<^verbatim>\<open>generateQuery\<close> returns the bare string, the
  property \<^verbatim>\<open>argumentsDict\<close> is \<^verbatim>\<open>undefined\<close> and \<^verbatim>\<open>Object.entries\<close> throws.
\<close>

definition emptyState :: genState where
  "emptyState = \<lparr>argumentsDict = [], duplicateArgCounts = [], crossReferenceKeyList = []\<rparr>"

definition generateFile ::
  "config \<Rightarrow> gqlSchema \<Rightarrow> nat \<Rightarrow> string \<Rightarrow> string \<Rightarrow> (error + string option) option" where
  "generateFile cfg sch fuel description type =
     (case getField sch description type of
        None \<Rightarrow> Some (Inl TypeError)
      | Some fld \<Rightarrow>
          if includeDeprecatedFields cfg \<or> \<not> isDeprecated fld
          then
            (case generateQuery cfg sch fuel type description ''undefined'' 1 False emptyState of
               None \<Rightarrow> None
             | Some (Inl e) \<Rightarrow> Some (Inl e)
             | Some (Inr (EmptyString, st)) \<Rightarrow> Some (Inl TypeError)
             | Some (Inr (QueryResult query, st)) \<Rightarrow>
                 let varsToTypesStr = getVarsToTypesStr (argumentsDict st) in
                 Some (Inr (Some (toLowerCase description @ '' '' @ type
                   @ (if varsToTypesStr \<noteq> [] then ''('' @ varsToTypesStr @ '')'' else [])
                   @ ''{\<newline>'' @ query @ ''\<newline>}''))))
          else Some (Inr None))"

section \<open>Notions the properties are stated with\<close>

text \<open>
  The nesting of braces in a text: \<open>braceNet\<close> is the number of opening braces minus
  the number of closing ones, \<open>braceMax\<close> the largest value that difference takes on
  a prefix of the text, that is the deepest nesting the text reaches.
\<close>

definition braceStep :: "char \<Rightarrow> int" where
  "braceStep c = (if c = CHR ''{'' then 1 else if c = CHR ''}'' then - 1 else 0)"

fun braceNet :: "string \<Rightarrow> int" where
  "braceNet [] = 0"
| "braceNet (c # cs) = braceStep c + braceNet cs"

fun braceMax :: "string \<Rightarrow> int" where
  "braceMax [] = 0"
| "braceMax (c # cs) = max 0 (braceStep c + braceMax cs)"

definition braceFree :: "string \<Rightarrow> bool" where
  "braceFree s = (CHR ''{'' \<notin> set s \<and> CHR ''}'' \<notin> set s)"

text \<open>All fields declared by the object types of a schema.\<close>

definition schemaFields :: "gqlSchema \<Rightarrow> field list" where
  "schemaFields sch = concat (map (\<lambda>(n, t). case t of ObjectType fs \<Rightarrow> fs | _ \<Rightarrow> []) sch)"

text \<open>A schema that declares no union type.\<close>

definition unionFree :: "gqlSchema \<Rightarrow> bool" where
  "unionFree sch = list_all (\<lambda>(n, t). case t of UnionType ts \<Rightarrow> False | _ \<Rightarrow> True) sch"

text \<open>
  Field and argument names without braces, and argument names that are not names of
  properties inherited from \<^verbatim>\<open>Object.prototype\<close>. GraphQL names are made of letters,
  digits and underscores, so the first part holds of every schema; \<^verbatim>\<open>constructor\<close> or
  \<^verbatim>\<open>toString\<close> are GraphQL names and fail the second part.
\<close>

definition plainNames :: "gqlSchema \<Rightarrow> bool" where
  "plainNames sch =
     list_all (\<lambda>f. braceFree (field_name f)
                  \<and> list_all (\<lambda>a. braceFree (arg_name a) \<and> inheritedText (arg_name a) = None)
                        (field_args f))
       (schemaFields sch)"

text \<open>Every counter of \<^verbatim>\<open>duplicateArgCounts\<close> is a number.\<close>

definition numericCounts :: "genState \<Rightarrow> bool" where
  "numericCounts st =
     list_all (\<lambda>(k, v). case v of Num n \<Rightarrow> True | Str t \<Rightarrow> False) (duplicateArgCounts st)"

text \<open>No field name and no union member name of the schema contains an opening
  parenthesis (true of every GraphQL name).\<close>

definition parenFreeNames :: "gqlSchema \<Rightarrow> bool" where
  "parenFreeNames sch =
     list_all (\<lambda>(n, t). case t of
                  ObjectType fs \<Rightarrow> list_all (\<lambda>f. CHR ''('' \<notin> set (field_name f)) fs
                | UnionType ts \<Rightarrow> list_all (\<lambda>T. CHR ''('' \<notin> set T) ts
                | LeafType \<Rightarrow> True) sch"

text \<open>A text whose braces are balanced and nested at most \<open>k\<close> deep, and the same of
  the text of a result.\<close>

definition nestedWithin :: "int \<Rightarrow> string \<Rightarrow> bool" where
  "nestedWithin k s = (braceNet s = 0 \<and> braceMax s \<le> k)"

definition resultWithin :: "int \<Rightarrow> queryResult \<Rightarrow> bool" where
  "resultWithin k r = (case r of EmptyString \<Rightarrow> True | QueryResult q \<Rightarrow> nestedWithin k q)"

text \<open>The conditions of \<open>plainNames\<close> on one argument and on one field, and what they keep
  true of the counters and of a dictionary of bindings.\<close>

definition plainArg :: "argument \<Rightarrow> bool" where
  "plainArg a = (braceFree (arg_name a) \<and> inheritedText (arg_name a) = None)"

definition plainFieldNames :: "field \<Rightarrow> bool" where
  "plainFieldNames fld = (braceFree (field_name fld) \<and> (\<forall>a \<in> set (field_args fld). plainArg a))"

definition numericList :: "(string \<times> jsval) list \<Rightarrow> bool" where
  "numericList counts = (\<forall>(k, v) \<in> set counts. \<exists>n. v = Num n)"

definition plainDict :: "(string \<times> argument) list \<Rightarrow> bool" where
  "plainDict dict = (\<forall>(k, a) \<in> set dict. braceFree k \<and> braceFree (arg_name a))"

text \<open>The text of a result holds no opening parenthesis.\<close>

definition parenFree :: "queryResult \<Rightarrow> bool" where
  "parenFree r = (case r of EmptyString \<Rightarrow> True | QueryResult q \<Rightarrow> CHR ''('' \<notin> set q)"

text \<open>The field \<open>curName\<close> of type \<open>curParentType\<close> exists and its type, stripped of list
  and non-null markers, is an object type: the call takes the branch of line 87.\<close>

definition objectTyped :: "gqlSchema \<Rightarrow> string \<Rightarrow> string \<Rightarrow> bool" where
  "objectTyped sch curParentType curName =
     (case getField sch curParentType curName of
        Some fld \<Rightarrow>
          (case getType sch (stripWrappers (field_type fld)) of
             Some (ObjectType fs) \<Rightarrow> True
           | _ \<Rightarrow> False)
      | None \<Rightarrow> False)"

text \<open>
  A position of the traversal outside any union fragment: the field reached from the
  field \<open>curName\<close> by going down \<open>path\<close>, a list of field names, through fields of
  object type. \<open>entryState\<close> gives the call \<^verbatim>\<open>generateQuery\<close> makes for that field (its
  budget, field name, parent type, parent name and depth) together with the state in
  which the call is entered: on every level the key of line 91 has been pushed and the
  children that come before in \<^verbatim>\<open>Object.keys\<close> order have been expanded and have
  returned (lines 94 to 101). There is no such call when a field on the way is cut by
  line 89, is not of object type, or has no such child after the filter of line 95. The
  field names of a type are distinct (they are the keys of one object), so a path names
  one position; the empty path is the position of \<open>curName\<close> itself. Every call with
  \<^verbatim>\<open>fromUnion\<close> unset is at such a position below the root field: line 100 hands the
  flag down and line 132 sets it.
\<close>

type_synonym position = "nat \<times> string \<times> string \<times> string \<times> nat"

fun entryState ::
  "config \<Rightarrow> gqlSchema \<Rightarrow> nat \<Rightarrow> string \<Rightarrow> string \<Rightarrow> string \<Rightarrow> nat \<Rightarrow> genState \<Rightarrow> string list
     \<Rightarrow> (position \<times> genState) option" where
  "entryState cfg sch fuel curName curParentType curParentName curDepth st [] =
     Some ((fuel, curName, curParentType, curParentName, curDepth), st)"
| "entryState cfg sch 0 curName curParentType curParentName curDepth st (child # path) = None"
| "entryState cfg sch (Suc fuel) curName curParentType curParentName curDepth st (child # path) =
     (case getField sch curParentType curName of
        None \<Rightarrow> None
      | Some fld \<Rightarrow>
          let curTypeName = stripWrappers (field_type fld) in
          (case getType sch curTypeName of
             Some (ObjectType fs) \<Rightarrow>
               let key = crossReferenceKey curParentName curName in
               if key \<in> set (crossReferenceKeyList st) \<or> int curDepth > depthLimit cfg
                  \<or> child \<notin> set (childKeys cfg fs)
               then None
               else
                 (case mapGen
                         (\<lambda>cur. generateQuery cfg sch fuel cur curTypeName curName (curDepth + 1) False)
                         (takeWhile (\<lambda>cur. cur \<noteq> child) (childKeys cfg fs))
                         (st\<lparr>crossReferenceKeyList := crossReferenceKeyList st @ [key]\<rparr>) of
                    Some (Inr (rs, st1)) \<Rightarrow>
                      entryState cfg sch fuel child curTypeName curName (curDepth + 1) st1 path
                  | _ \<Rightarrow> None)
           | _ \<Rightarrow> None))"

section \<open>Example schemas\<close>

definition plainField :: "string \<Rightarrow> string \<Rightarrow> argument list \<Rightarrow> field" where
  "plainField n t as = \<lparr>field_name = n, field_type = t, field_args = as, isDeprecated = False\<rparr>"

definition deprecatedField :: "string \<Rightarrow> string \<Rightarrow> argument list \<Rightarrow> field" where
  "deprecatedField n t as = \<lparr>field_name = n, field_type = t, field_args = as, isDeprecated = True\<rparr>"

definition limitConfig :: "int \<Rightarrow> config" where
  "limitConfig d = \<lparr>depthLimit = d, excludeNestedArgs = False, includeDeprecatedFields = False\<rparr>"

definition rootOnlyArgsConfig :: config where
  "rootOnlyArgsConfig = \<lparr>depthLimit = 100, excludeNestedArgs = True, includeDeprecatedFields = False\<rparr>"

text \<open>\<^verbatim>\<open>type Query { user(id: Int!): User! }  type User { id: Int! username: String! }\<close>\<close>

definition userSchema :: gqlSchema where
  "userSchema =
     [(''Query'', ObjectType [plainField ''user'' ''User!'' [\<lparr>arg_name = ''id'', arg_type = ''Int!''\<rparr>]]),
      (''User'', ObjectType [plainField ''id'' ''Int!'' [], plainField ''username'' ''String!'' []]),
      (''Int'', LeafType), (''String'', LeafType)]"

text \<open>\<^verbatim>\<open>type Query { a: A }  type A { self: A  name: String! }\<close>\<close>

definition selfSchema :: gqlSchema where
  "selfSchema =
     [(''Query'', ObjectType [plainField ''a'' ''A'' []]),
      (''A'', ObjectType [plainField ''self'' ''A'' [], plainField ''name'' ''String!'' []]),
      (''String'', LeafType)]"

text \<open>\<^verbatim>\<open>type Query { root: R }  type R { a: A  b: B }  type A { c: C }  type B { c: C }
  type C { d: D }  type D { v: Int }\<close>: the edge from \<open>c\<close> to \<open>d\<close> lies in both sibling
  subtrees \<open>a\<close> and \<open>b\<close>.\<close>

definition siblingSchema :: gqlSchema where
  "siblingSchema =
     [(''Query'', ObjectType [plainField ''root'' ''R'' []]),
      (''R'', ObjectType [plainField ''a'' ''A'' [], plainField ''b'' ''B'' []]),
      (''A'', ObjectType [plainField ''c'' ''C'' []]),
      (''B'', ObjectType [plainField ''c'' ''C'' []]),
      (''C'', ObjectType [plainField ''d'' ''D'' []]),
      (''D'', ObjectType [plainField ''v'' ''Int'' []]),
      (''Int'', LeafType)]"

text \<open>\<^verbatim>\<open>type Query { root: U }  union U = A  type A { u: U }\<close>\<close>

definition unionCycleSchema :: gqlSchema where
  "unionCycleSchema =
     [(''Query'', ObjectType [plainField ''root'' ''U'' []]),
      (''U'', UnionType [''A'']),
      (''A'', ObjectType [plainField ''u'' ''U'' []])]"

text \<open>\<^verbatim>\<open>type Query { root: R }  type R { a(id1: Int): Int  b(id: Int): Int  c(id: String): Int }\<close>\<close>

definition collisionSchema :: gqlSchema where
  "collisionSchema =
     [(''Query'', ObjectType [plainField ''root'' ''R'' []]),
      (''R'', ObjectType
         [plainField ''a'' ''Int'' [\<lparr>arg_name = ''id1'', arg_type = ''Int''\<rparr>],
          plainField ''b'' ''Int'' [\<lparr>arg_name = ''id'', arg_type = ''Int''\<rparr>],
          plainField ''c'' ''Int'' [\<lparr>arg_name = ''id'', arg_type = ''String''\<rparr>]]),
      (''Int'', LeafType)]"

text \<open>\<^verbatim>\<open>type Query { f(constructor: String): Int }\<close>\<close>

definition constructorSchema :: gqlSchema where
  "constructorSchema =
     [(''Query'', ObjectType
         [plainField ''f'' ''Int'' [\<lparr>arg_name = ''constructor'', arg_type = ''String''\<rparr>]]),
      (''Int'', LeafType)]"

text \<open>\<^verbatim>\<open>type Query { u: U }  union U = A | B  type A { x: Int }  type B { c: C }
  type C { y: Int @deprecated }\<close>: the expansion of member \<open>B\<close> is empty.\<close>

definition twoMemberSchema :: gqlSchema where
  "twoMemberSchema =
     [(''Query'', ObjectType [plainField ''u'' ''U'' []]),
      (''U'', UnionType [''A'', ''B'']),
      (''A'', ObjectType [plainField ''x'' ''Int'' []]),
      (''B'', ObjectType [plainField ''c'' ''C'' []]),
      (''C'', ObjectType [deprecatedField ''y'' ''Int'' []]),
      (''Int'', LeafType)]"

text \<open>\<^verbatim>\<open>type Query { u: U  b: B }  union U = A | B  type A { x: Int }
  type B { y: Int @deprecated }\<close>: the only field of member \<open>B\<close> is deprecated.\<close>

definition deprecatedMemberSchema :: gqlSchema where
  "deprecatedMemberSchema =
     [(''Query'', ObjectType [plainField ''u'' ''U'' [], plainField ''b'' ''B'' []]),
      (''U'', UnionType [''A'', ''B'']),
      (''A'', ObjectType [plainField ''x'' ''Int'' []]),
      (''B'', ObjectType [deprecatedField ''y'' ''Int'' []]),
      (''Int'', LeafType)]"

text \<open>\<^verbatim>\<open>type Query { r: R }  type R { u: U }  union U = A  type A { x: Int }\<close>\<close>

definition unionDepthSchema :: gqlSchema where
  "unionDepthSchema =
     [(''Query'', ObjectType [plainField ''r'' ''R'' []]),
      (''R'', ObjectType [plainField ''u'' ''U'' []]),
      (''U'', UnionType [''A'']),
      (''A'', ObjectType [plainField ''x'' ''Int'' []]),
      (''Int'', LeafType)]"

text \<open>\<^verbatim>\<open>type Query { r: R }  type R { u: U }  union U = A  type A { b: B }  type B { x: Int }\<close>\<close>

definition emptyUnionSchema :: gqlSchema where
  "emptyUnionSchema =
     [(''Query'', ObjectType [plainField ''r'' ''R'' []]),
      (''R'', ObjectType [plainField ''u'' ''U'' []]),
      (''U'', UnionType [''A'']),
      (''A'', ObjectType [plainField ''b'' ''B'' []]),
      (''B'', ObjectType [plainField ''x'' ''Int'' []]),
      (''Int'', LeafType)]"

text \<open>\<^verbatim>\<open>type Query { root(id: Int): R }  type R { a(id: Int): Int  u: U }  union U = A
  type A { x(id: Int): Int }\<close>\<close>

definition nestedArgsSchema :: gqlSchema where
  "nestedArgsSchema =
     [(''Query'', ObjectType [plainField ''root'' ''R'' [\<lparr>arg_name = ''id'', arg_type = ''Int''\<rparr>]]),
      (''R'', ObjectType [plainField ''a'' ''Int'' [\<lparr>arg_name = ''id'', arg_type = ''Int''\<rparr>],
                          plainField ''u'' ''U'' []]),
      (''U'', UnionType [''A'']),
      (''A'', ObjectType [plainField ''x'' ''Int'' [\<lparr>arg_name = ''id'', arg_type = ''Int''\<rparr>]]),
      (''Int'', LeafType)]"


text \<open>\<^verbatim>\<open>type Query { root: R }  type R { a: A  b: B }  type A { x: X }  type B { x: X }
  type X { u: U }  union U = M  type M { m: Int }\<close>: the edge from \<open>x\<close> to the field \<open>u\<close>
  of union type lies below \<open>a\<close> and below \<open>b\<close>.\<close>

definition unionEdgeSchema :: gqlSchema where
  "unionEdgeSchema =
     [(''Query'', ObjectType [plainField ''root'' ''R'' []]),
      (''R'', ObjectType [plainField ''a'' ''A'' [], plainField ''b'' ''B'' []]),
      (''A'', ObjectType [plainField ''x'' ''X'' []]),
      (''B'', ObjectType [plainField ''x'' ''X'' []]),
      (''X'', ObjectType [plainField ''u'' ''U'' []]),
      (''U'', UnionType [''M'']),
      (''M'', ObjectType [plainField ''m'' ''Int'' []]),
      (''Int'', LeafType)]"

text \<open>\<^verbatim>\<open>type Query { r: R }  type R { u: U }  union U = A  type A { v: V }  union V = B
  type B { x: Int }\<close>\<close>

definition nestedUnionSchema :: gqlSchema where
  "nestedUnionSchema =
     [(''Query'', ObjectType [plainField ''r'' ''R'' []]),
      (''R'', ObjectType [plainField ''u'' ''U'' []]),
      (''U'', UnionType [''A'']),
      (''A'', ObjectType [plainField ''v'' ''V'' []]),
      (''V'', UnionType [''B'']),
      (''B'', ObjectType [plainField ''x'' ''Int'' []]),
      (''Int'', LeafType)]"

text \<open>The state in which the children of a root field named \<open>root\<close> are entered.\<close>

definition belowRoot :: genState where
  "belowRoot = \<lparr>argumentsDict = [], duplicateArgCounts = [],
                 crossReferenceKeyList = [''undefinedTorootKey'']\<rparr>"

text \<open>In \<open>siblingSchema\<close>: the state the subtree of \<open>a\<close> leaves behind.\<close>

definition afterSiblingA :: genState where
  "afterSiblingA = \<lparr>argumentsDict = [], duplicateArgCounts = [],
                     crossReferenceKeyList =
                       [''undefinedTorootKey'', ''rootToaKey'', ''aTocKey'', ''cTodKey'']\<rparr>"

text \<open>In \<open>siblingSchema\<close>: the states in which the field \<open>d\<close> is entered below \<open>a\<close> and
  below \<open>b\<close>.\<close>

definition belowA :: genState where
  "belowA = \<lparr>argumentsDict = [], duplicateArgCounts = [],
              crossReferenceKeyList = [''undefinedTorootKey'', ''rootToaKey'', ''aTocKey'']\<rparr>"

definition belowB :: genState where
  "belowB = \<lparr>argumentsDict = [], duplicateArgCounts = [],
              crossReferenceKeyList =
                [''undefinedTorootKey'', ''rootToaKey'', ''aTocKey'', ''cTodKey'',
                 ''rootTobKey'', ''bTocKey'']\<rparr>"



declare generateQuery.simps [simp del]

section \<open>How a call changes the shared state\<close>

text \<open>
  A relation between the state before and after that is reflexive, transitive and kept
  by every step of a loop is kept by the loop.
\<close>

lemma mapGen_rel:
  assumes refl: "\<And>s. R s s" and trans: "\<And>a b c. R a b \<Longrightarrow> R b c \<Longrightarrow> R a c"
      and step: "\<And>x s y s'. gen x s = Some (Inr (y, s')) \<Longrightarrow> R s s'"
  shows "mapGen gen xs st = Some (Inr (ys, st')) \<Longrightarrow> R st st'"
proof (induction xs arbitrary: st ys)
  case Nil
  then show ?case by (simp add: refl)
next
  case (Cons x xs)
  from Cons.prems obtain y s1 ys' where
    g: "gen x st = Some (Inr (y, s1))" and m: "mapGen gen xs s1 = Some (Inr (ys', st'))"
    by (auto split: option.splits sum.splits)
  from step [OF g] Cons.IH [OF m] show ?case by (rule trans)
qed

lemma unionLoop_rel:
  assumes refl: "\<And>s. R s s" and trans: "\<And>a b c. R a b \<Longrightarrow> R b c \<Longrightarrow> R a c"
      and step: "\<And>x t s y s'. gen x t s = Some (Inr (y, s')) \<Longrightarrow> R s s'"
  shows "unionLoop gen sch fi types q st = Some (Inr (q', st')) \<Longrightarrow> R st st'"
proof (induction types arbitrary: q st)
  case Nil
  then show ?case by (simp add: refl)
next
  case (Cons t types)
  from Cons.prems obtain fs :: "field list" and rs s1 q1 where
    m: "mapGen (\<lambda>cur. gen cur t) (map field_name fs) st = Some (Inr (rs, s1))"
    and u: "unionLoop gen sch fi types q1 s1 = Some (Inr (q', st'))"
    by (fastforce split: option.splits sum.splits gqlType.splits simp: Let_def)
  have "R st s1"
  proof (rule mapGen_rel [where R = R and gen = "\<lambda>cur. gen cur t", OF _ _ _ m])
    show "\<And>s. R s s" by (rule refl)
    show "\<And>a b c. R a b \<Longrightarrow> R b c \<Longrightarrow> R a c" by (rule trans)
    show "\<And>x s y s'. gen x t s = Some (Inr (y, s')) \<Longrightarrow> R s s'" by (rule step)
  qed
  with Cons.IH [OF u] show ?case by (blast intro: trans)
qed

lemma unionPart_rel:
  assumes refl: "\<And>s. R s s" and trans: "\<And>a b c. R a b \<Longrightarrow> R b c \<Longrightarrow> R a c"
      and step: "\<And>x t s y s'. gen x t s = Some (Inr (y, s')) \<Longrightarrow> R s s'"
  shows "unionPart gen sch curType d q st = Some (Inr (q', st')) \<Longrightarrow> R st st'"
proof -
  assume a: "unionPart gen sch curType d q st = Some (Inr (q', st'))"
  have loop: "\<And>fi types q0 q1. unionLoop gen sch fi types q0 st = Some (Inr (q1, st')) \<Longrightarrow> R st st'"
  proof -
    fix fi types q0 q1
    assume u: "unionLoop gen sch fi types q0 st = Some (Inr (q1, st'))"
    show "R st st'"
    proof (rule unionLoop_rel [where R = R and gen = gen, OF _ _ _ u])
      show "\<And>s. R s s" by (rule refl)
      show "\<And>a b c. R a b \<Longrightarrow> R b c \<Longrightarrow> R a c" by (rule trans)
      show "\<And>x t s y s'. gen x t s = Some (Inr (y, s')) \<Longrightarrow> R s s'" by (rule step)
    qed
  qed
  from a show ?thesis
    unfolding unionPart_def
    by (auto split: gqlType.splits if_splits option.splits sum.splits intro: refl loop)
qed

lemma unionPart_not_union [simp]:
  "unionPart gen sch (ObjectType fs) d q st = Some (Inr (q, st))"
  "unionPart gen sch LeafType d q st = Some (Inr (q, st))"
  by (simp_all add: unionPart_def)

lemma wrap_result_eq:
  "map_option (map_sum id (map_prod QueryResult id)) m = Some (Inr (r, st'))
     \<longleftrightarrow> (\<exists>q. m = Some (Inr (q, st')) \<and> r = QueryResult q)"
proof (cases m)
  case None
  then show ?thesis by simp
next
  case (Some z)
  then show ?thesis by (cases z) auto
qed

lemma wrap_sum_eq:
  "map_sum id (map_prod QueryResult id) z = Inr (r, st')
     \<longleftrightarrow> (\<exists>q. z = Inr (q, st') \<and> r = QueryResult q)"
  by (cases z) auto

lemma generateQuery_SucE:
  assumes run: "generateQuery cfg sch (Suc fuel) cur pt pn d fu st = Some (Inr (r, st'))"
  obtains
    (cut) fld fs where
      "getField sch pt cur = Some fld"
      "getType sch (stripWrappers (field_type fld)) = Some (ObjectType fs)"
      "crossReferenceKey pn cur \<in> set (crossReferenceKeyList st)
         \<or> (if fu then int d - 2 else int d) > depthLimit cfg"
      "r = EmptyString" "st' = st"
  | (object) fld fs rs st2 where
      "getField sch pt cur = Some fld"
      "getType sch (stripWrappers (field_type fld)) = Some (ObjectType fs)"
      "crossReferenceKey pn cur \<notin> set (crossReferenceKeyList st)"
      "\<not> (if fu then int d - 2 else int d) > depthLimit cfg"
      "mapGen (\<lambda>c. generateQuery cfg sch fuel c (stripWrappers (field_type fld)) cur (d + 1) fu)
         (childKeys cfg fs)
         (if \<not> fu then st\<lparr>crossReferenceKeyList := crossReferenceKeyList st @ [crossReferenceKey pn cur]\<rparr> else st)
       = Some (Inr (rs, st2))"
      "r = QueryResult (fst (renderField cfg fld d True (joinTruthy rs) st2))"
      "st' = snd (renderField cfg fld d True (joinTruthy rs) st2)"
  | (leaf) fld where
      "getField sch pt cur = Some fld"
      "getType sch (stripWrappers (field_type fld)) = Some LeafType"
      "r = QueryResult (fst (renderField cfg fld d False [] st))"
      "st' = snd (renderField cfg fld d False [] st)"
  | (union) fld types q where
      "getField sch pt cur = Some fld"
      "getType sch (stripWrappers (field_type fld)) = Some (UnionType types)"
      "unionPart (\<lambda>c t. generateQuery cfg sch fuel c t cur (d + 2) True) sch (UnionType types) d
         (fst (renderField cfg fld d False [] st)) (snd (renderField cfg fld d False [] st))
       = Some (Inr (q, st'))"
      "r = QueryResult q"
proof -
  note [simp] = generateQuery.simps(2)
  from run obtain fld where f: "getField sch pt cur = Some fld"
    by (auto split: option.splits)
  with run obtain curType where t: "getType sch (stripWrappers (field_type fld)) = Some curType"
    by (auto split: option.splits simp: Let_def)
  show thesis
  proof (cases curType)
    case LeafType
    with run f t show thesis
      by (intro leaf [of fld]) (auto simp: Let_def wrap_result_eq wrap_sum_eq split: prod.splits)
  next
    case (ObjectType fs)
    show thesis
    proof (cases "crossReferenceKey pn cur \<in> set (crossReferenceKeyList st)
         \<or> (if fu then int d - 2 else int d) > depthLimit cfg")
      case True
      with run f t ObjectType show thesis
        by (intro cut [of fld fs]) (auto simp: Let_def)
    next
      case False
      with run f t ObjectType obtain rs st2 where
        m: "mapGen (\<lambda>c. generateQuery cfg sch fuel c (stripWrappers (field_type fld)) cur (d + 1) fu)
         (childKeys cfg fs)
         (if \<not> fu then st\<lparr>crossReferenceKeyList := crossReferenceKeyList st @ [crossReferenceKey pn cur]\<rparr> else st)
          = Some (Inr (rs, st2))"
        by (auto simp: Let_def split: option.splits sum.splits if_splits)
      with run f t ObjectType False show thesis
        by (intro object [of fld fs rs st2]) (auto simp: Let_def wrap_result_eq wrap_sum_eq split: prod.splits if_splits)
    qed
  next
    case (UnionType types)
    with run f t obtain q where
      u: "unionPart (\<lambda>c t. generateQuery cfg sch fuel c t cur (d + 2) True) sch (UnionType types) d
         (fst (renderField cfg fld d False [] st)) (snd (renderField cfg fld d False [] st))
       = Some (Inr (q, st'))" and "r = QueryResult q"
      by (auto simp: Let_def wrap_result_eq wrap_sum_eq split: prod.splits)
    with f t UnionType show thesis
      by (intro union [of fld types q]) auto
  qed
qed

lemma generateQuery_rel:
  assumes refl: "\<And>s. R s s" and trans: "\<And>a b c. R a b \<Longrightarrow> R b c \<Longrightarrow> R a c"
      and okc: "\<And>d fu. ok d fu \<Longrightarrow> ok (d + 1) fu \<and> ok (d + 2) True"
      and push: "\<And>d s k. ok d False \<Longrightarrow> k \<notin> set (crossReferenceKeyList s)
                   \<Longrightarrow> R s (s\<lparr>crossReferenceKeyList := crossReferenceKeyList s @ [k]\<rparr>)"
      and render: "\<And>d fu fld h cq s. ok d fu \<Longrightarrow> R s (snd (renderField cfg fld d h cq s))"
  shows "ok d fu \<Longrightarrow> generateQuery cfg sch fuel cur pt pn d fu st = Some (Inr (r, st')) \<Longrightarrow> R st st'"
proof (induction fuel arbitrary: cur pt pn d fu st r st')
  case 0
  then show ?case by (simp add: generateQuery.simps(1))
next
  case (Suc fuel)
  note ok = \<open>ok d fu\<close>
  from Suc.prems(2) show ?case
  proof (cases rule: generateQuery_SucE)
    case (cut fld fs)
    then show ?thesis by (simp add: refl)
  next
    case (object fld fs rs st2)
    let ?st1 = "if \<not> fu then st\<lparr>crossReferenceKeyList := crossReferenceKeyList st @ [crossReferenceKey pn cur]\<rparr> else st"
    have a: "R st ?st1"
      using ok object(3) by (auto intro: refl push)
    have b: "R ?st1 st2"
    proof (rule mapGen_rel [where R = R, OF _ _ _ object(5)])
      show "\<And>s. R s s" by (rule refl)
      show "\<And>a b c. R a b \<Longrightarrow> R b c \<Longrightarrow> R a c" by (rule trans)
      show "\<And>x s y s'. generateQuery cfg sch fuel x (stripWrappers (field_type fld)) cur (d + 1) fu s
              = Some (Inr (y, s')) \<Longrightarrow> R s s'"
        using Suc.IH okc [OF ok] by blast
    qed
    have c: "R st2 st'"
      unfolding object(7) by (rule render [OF ok])
    from a b c show ?thesis by (blast intro: trans)
  next
    case (leaf fld)
    then show ?thesis by (simp add: render [OF ok])
  next
    case (union fld types q)
    have a: "R st (snd (renderField cfg fld d False [] st))"
      by (rule render [OF ok])
    have b: "R (snd (renderField cfg fld d False [] st)) st'"
    proof (rule unionPart_rel [where R = R, OF _ _ _ union(3)])
      show "\<And>s. R s s" by (rule refl)
      show "\<And>a b c. R a b \<Longrightarrow> R b c \<Longrightarrow> R a c" by (rule trans)
      show "\<And>x t s y s'. generateQuery cfg sch fuel x t cur (d + 2) True s
              = Some (Inr (y, s')) \<Longrightarrow> R s s'"
        using Suc.IH okc [OF ok] by blast
    qed
    from a b show ?thesis by (rule trans)
  qed
qed

lemma renderField_keys [simp]:
  "crossReferenceKeyList (snd (renderField cfg fld d h cq st)) = crossReferenceKeyList st"
  by (simp add: renderField_def Let_def split: prod.splits)

lemma generateQuery_keys_prefix:
  assumes "generateQuery cfg sch fuel cur pt pn d fu st = Some (Inr (r, st'))"
  shows "prefix (crossReferenceKeyList st) (crossReferenceKeyList st')"
  by (rule generateQuery_rel [where R = "\<lambda>s s'. prefix (crossReferenceKeyList s) (crossReferenceKeyList s')"
        and ok = "\<lambda>_ _. True", OF _ _ _ _ _ _ assms]) (auto intro: prefix_order.trans)

lemma generateQuery_keys_distinct:
  assumes "generateQuery cfg sch fuel cur pt pn d fu st = Some (Inr (r, st'))"
  shows "distinct (crossReferenceKeyList st) \<longrightarrow> distinct (crossReferenceKeyList st')"
  by (rule generateQuery_rel [where R = "\<lambda>s s'. distinct (crossReferenceKeyList s) \<longrightarrow> distinct (crossReferenceKeyList s')"
        and ok = "\<lambda>_ _. True", OF _ _ _ _ _ _ assms]) auto

lemma generateQuery_fromUnion_keys:
  assumes "generateQuery cfg sch fuel cur pt pn d True st = Some (Inr (r, st'))"
  shows "crossReferenceKeyList st' = crossReferenceKeyList st"
  by (rule generateQuery_rel [where R = "\<lambda>s s'. crossReferenceKeyList s' = crossReferenceKeyList s"
        and ok = "\<lambda>_ fu. fu", OF _ _ _ _ _ _ assms]) auto

lemma renderField_nested_args:
  "excludeNestedArgs cfg \<Longrightarrow> 1 < d \<Longrightarrow> snd (renderField cfg fld d h cq st) = st"
  by (simp add: renderField_def Let_def split: prod.splits)

lemma generateQuery_nested_args_frame:
  assumes "excludeNestedArgs cfg" "1 < d" "generateQuery cfg sch fuel cur pt pn d fu st = Some (Inr (r, st'))"
  shows "argumentsDict st' = argumentsDict st \<and> duplicateArgCounts st' = duplicateArgCounts st"
  by (rule generateQuery_rel [where R = "\<lambda>s s'. argumentsDict s' = argumentsDict s \<and> duplicateArgCounts s' = duplicateArgCounts s"
        and ok = "\<lambda>d _. 1 < d" and cfg = cfg, OF _ _ _ _ _ assms(2,3)])
     (auto simp: renderField_nested_args assms(1))

section \<open>The recursion budget\<close>

text \<open>
  A call that returns within a budget returns the same with any larger budget: the
  budget only decides whether the model has run long enough to see the call return.
\<close>

lemma mapGen_mono:
  assumes "\<And>x s r. gen x s = Some r \<Longrightarrow> gen' x s = Some r"
  shows "mapGen gen xs st = Some r \<Longrightarrow> mapGen gen' xs st = Some r"
proof (induction xs arbitrary: st r)
  case Nil
  then show ?case by simp
next
  case (Cons x xs)
  from Cons.prems obtain z where g: "gen x st = Some z"
    by (auto split: option.splits)
  then have g': "gen' x st = Some z" by (rule assms)
  show ?case
  proof (cases z)
    case (Inl e)
    with g g' Cons.prems show ?thesis by simp
  next
    case (Inr p)
    obtain y s1 where p: "p = (y, s1)" by (cases p)
    from Cons.prems g Inr p obtain z2 where m: "mapGen gen xs s1 = Some z2"
      by (auto split: option.splits)
    from Cons.IH [OF m] have m': "mapGen gen' xs s1 = Some z2" .
    from Cons.prems g g' Inr p m m' show ?thesis by simp
  qed
qed

lemma unionLoop_mono:
  assumes "\<And>x t s r. gen x t s = Some r \<Longrightarrow> gen' x t s = Some r"
  shows "unionLoop gen sch fi types q st = Some r \<Longrightarrow> unionLoop gen' sch fi types q st = Some r"
proof (induction types arbitrary: q st r)
  case Nil
  then show ?case by simp
next
  case (Cons t types)
  show ?case
  proof (cases "getType sch t")
    case None
    with Cons.prems show ?thesis by simp
  next
    case (Some ty)
    show ?thesis
    proof (cases ty)
      case (ObjectType fs)
      from Cons.prems Some ObjectType obtain z where
        m: "mapGen (\<lambda>cur. gen cur t) (map field_name fs) st = Some z"
        by (auto split: option.splits)
      have m': "mapGen (\<lambda>cur. gen' cur t) (map field_name fs) st = Some z"
        by (rule mapGen_mono [OF _ m]) (rule assms)
      show ?thesis
      proof (cases z)
        case (Inl e)
        with Cons.prems Some ObjectType m m' show ?thesis by simp
      next
        case (Inr p)
        obtain rs s1 where p: "p = (rs, s1)" by (cases p)
        from Cons.prems Some ObjectType m m' Inr p Cons.IH show ?thesis
          by (simp add: Let_def)
      qed
    qed (use Cons.prems Some in simp_all)
  qed
qed

lemma unionPart_mono:
  assumes "\<And>x t s r. gen x t s = Some r \<Longrightarrow> gen' x t s = Some r"
  shows "unionPart gen sch ct d q st = Some r \<Longrightarrow> unionPart gen' sch ct d q st = Some r"
proof (cases ct)
  case (UnionType types)
  assume a: "unionPart gen sch ct d q st = Some r"
  show ?thesis
  proof (cases "types = []")
    case True
    with a UnionType show ?thesis by (simp add: unionPart_def)
  next
    case False
    from a UnionType False obtain z where
      u: "unionLoop gen sch (indent (d + 1)) types (q @ ''{\<newline>'') st = Some z"
      by (auto simp: unionPart_def split: option.splits)
    have u': "unionLoop gen' sch (indent (d + 1)) types (q @ ''{\<newline>'') st = Some z"
      by (rule unionLoop_mono [OF _ u]) (rule assms)
    from a UnionType False u u' show ?thesis by (simp add: unionPart_def)
  qed
qed (simp_all add: unionPart_def)

lemma generateQuery_fuel_Suc:
  "generateQuery cfg sch fuel cur pt pn d fu st = Some r
     \<Longrightarrow> generateQuery cfg sch (Suc fuel) cur pt pn d fu st = Some r"
proof (induction fuel arbitrary: cur pt pn d fu st r)
  case 0
  then show ?case by (simp add: generateQuery.simps)
next
  case (Suc fuel)
  have m: "\<And>pt pn d fu xs st r.
      mapGen (\<lambda>c. generateQuery cfg sch fuel c pt pn d fu) xs st = Some r
      \<Longrightarrow> mapGen (\<lambda>c. generateQuery cfg sch (Suc fuel) c pt pn d fu) xs st = Some r"
    by (rule mapGen_mono) (rule Suc.IH)
  have u: "\<And>pn d ct d' q st r.
      unionPart (\<lambda>c t. generateQuery cfg sch fuel c t pn d True) sch ct d' q st = Some r
      \<Longrightarrow> unionPart (\<lambda>c t. generateQuery cfg sch (Suc fuel) c t pn d True) sch ct d' q st = Some r"
    by (rule unionPart_mono) (rule Suc.IH)
  from Suc.prems show ?case
    apply (subst generateQuery.simps(2))
    apply (subst (asm) generateQuery.simps(2))
    apply (auto simp: Let_def split: option.splits gqlType.splits prod.splits sum.splits if_splits dest!: m u)
    done
qed

lemma generateQuery_fuel_mono:
  "generateQuery cfg sch fuel cur pt pn d fu st = Some r
     \<Longrightarrow> generateQuery cfg sch (fuel + k) cur pt pn d fu st = Some r"
  by (induction k) (auto dest: generateQuery_fuel_Suc)

lemma generateFile_fuel_mono:
  assumes "generateFile cfg sch fuel description type = Some r"
  shows "generateFile cfg sch (fuel + k) description type = Some r"
proof (cases "getField sch description type")
  case None
  with assms show ?thesis by (simp add: generateFile_def)
next
  case (Some fld)
  show ?thesis
  proof (cases "includeDeprecatedFields cfg \<or> \<not> isDeprecated fld")
    case False
    with assms Some show ?thesis by (simp add: generateFile_def)
  next
    case True
    with assms Some obtain z where
      g: "generateQuery cfg sch fuel type description ''undefined'' 1 False emptyState = Some z"
      by (auto simp: generateFile_def split: option.splits)
    from generateQuery_fuel_mono [OF g, of k] g assms Some True show ?thesis
      by (simp add: generateFile_def)
  qed
qed

section \<open>The end-to-end example\<close>

text \<open>
  Claim C9. For the schema
  \<^verbatim>\<open>type Query { user(id: Int!): User! }  type User { id: Int! username: String! }\<close>
  with depth limit 5, the text written for the root field \<open>user\<close> is the signature line
  \<^verbatim>\<open>query user($id: Int!){\<close>, a line break, and the body: the selection of \<open>user\<close> with
  its two fields, indented by four spaces per level, and the closing brace. The call
  returns this with every recursion budget from 2 on.
\<close>

theorem user_example_document:
  "generateFile (limitConfig 5) userSchema (2 + n) ''Query'' ''user'' =
     Some (Inr (Some (''query user($id: Int!){'' @ ''\<newline>'' @
       ''    user(id: $id){\<newline>        id\<newline>        username\<newline>    }\<newline>}'')))"
proof -
  have "generateFile (limitConfig 5) userSchema 2 ''Query'' ''user'' =
     Some (Inr (Some (''query user($id: Int!){'' @ ''\<newline>'' @
       ''    user(id: $id){\<newline>        id\<newline>        username\<newline>    }\<newline>}'')))"
    by code_simp
  then show ?thesis by (rule generateFile_fuel_mono)
qed

section \<open>The visited-edge list\<close>

text \<open>
  \<^verbatim>\<open>crossReferenceKeyList\<close> is one array for the whole traversal of a root field: line 91
  pushes onto it and nothing ever removes an element or copies the array.
\<close>

lemma visited_edge_cut:
  assumes "objectTyped sch pt cur"
      and "crossReferenceKey pn cur \<in> set (crossReferenceKeyList st)"
  shows "generateQuery cfg sch (Suc n) cur pt pn d fu st = Some (Inr (EmptyString, st))"
  using assms
  by (auto simp: objectTyped_def generateQuery.simps(2) Let_def
      split: option.splits gqlType.splits)

lemma mapGen_keys_prefix:
  assumes "mapGen (\<lambda>c. generateQuery cfg sch fuel c pt pn d fu) xs st = Some (Inr (rs, st'))"
  shows "prefix (crossReferenceKeyList st) (crossReferenceKeyList st')"
  by (rule mapGen_rel [where R = "\<lambda>s s'. prefix (crossReferenceKeyList s) (crossReferenceKeyList s')",
        OF _ _ _ assms])
     (auto intro: prefix_order.trans generateQuery_keys_prefix)

lemma expanded_edge_recorded:
  assumes run: "generateQuery cfg sch fuel cur pt pn d False st = Some (Inr (r, st'))"
      and obj: "objectTyped sch pt cur" and r: "r \<noteq> EmptyString"
  shows "crossReferenceKey pn cur \<notin> set (crossReferenceKeyList st)
       \<and> crossReferenceKey pn cur \<in> set (crossReferenceKeyList st')"
proof (cases fuel)
  case 0
  with run show ?thesis by (simp add: generateQuery.simps(1))
next
  case (Suc n)
  from run [unfolded Suc] show ?thesis
  proof (cases rule: generateQuery_SucE)
    case (cut fld fs)
    with r show ?thesis by simp
  next
    case (object fld fs rs st2)
    from mapGen_keys_prefix [OF object(5)]
    have "crossReferenceKey pn cur \<in> set (crossReferenceKeyList st2)"
      by (auto dest: set_mono_prefix)
    with object show ?thesis by simp
  next
    case (leaf fld)
    with obj show ?thesis by (simp add: objectTyped_def)
  next
    case (union fld types q)
    with obj show ?thesis by (simp add: objectTyped_def)
  qed
qed

text \<open>
  The children of a field run one after the other on the same list. A run over all the
  children splits at any child into the run over the children before it, the call for
  the child itself, and the run over the children after it.
\<close>

lemma mapGen_split:
  assumes "mapGen gen ks st = Some (Inr (rs, sN))" and "c \<in> set ks"
  shows "\<exists>rs0 s2 r2 s2' rs3.
           mapGen gen (takeWhile (\<lambda>k. k \<noteq> c) ks) st = Some (Inr (rs0, s2))
         \<and> gen c s2 = Some (Inr (r2, s2'))
         \<and> mapGen gen (tl (dropWhile (\<lambda>k. k \<noteq> c) ks)) s2' = Some (Inr (rs3, sN))"
  using assms
proof (induction ks arbitrary: st rs)
  case Nil
  then show ?case by simp
next
  case (Cons k ks)
  from Cons.prems(1) obtain r st1 rs' where
    g: "gen k st = Some (Inr (r, st1))" and m: "mapGen gen ks st1 = Some (Inr (rs', sN))"
    by (auto split: option.splits sum.splits)
  show ?case
  proof (cases "k = c")
    case True
    with g m show ?thesis by auto
  next
    case False
    with Cons.prems(2) have "c \<in> set ks" by simp
    from Cons.IH [OF m this] obtain rs0 s2 r2 s2' rs3 where
      "mapGen gen (takeWhile (\<lambda>k. k \<noteq> c) ks) st1 = Some (Inr (rs0, s2))"
      "gen c s2 = Some (Inr (r2, s2'))"
      "mapGen gen (tl (dropWhile (\<lambda>k. k \<noteq> c) ks)) s2' = Some (Inr (rs3, sN))"
      by blast
    with g False show ?thesis by auto
  qed
qed



text \<open>
  What it means that the field at the end of a path is entered: every field on the way
  is of object type, is not cut and has pushed its key, and the children before the next
  field of the path have returned. The list in which the field is entered extends the
  list at the start of the path, and holds the key of every field above it on the path.
\<close>

lemma entryState_ConsE:
  assumes "entryState cfg sch fuel cur pt pn d st (c # path) = Some (pos, s2)"
  obtains n fld fs rs0 sc where
    "fuel = Suc n"
    "getField sch pt cur = Some fld"
    "getType sch (stripWrappers (field_type fld)) = Some (ObjectType fs)"
    "crossReferenceKey pn cur \<notin> set (crossReferenceKeyList st)"
    "\<not> int d > depthLimit cfg"
    "c \<in> set (childKeys cfg fs)"
    "mapGen (\<lambda>x. generateQuery cfg sch n x (stripWrappers (field_type fld)) cur (d + 1) False)
       (takeWhile (\<lambda>k. k \<noteq> c) (childKeys cfg fs))
       (st\<lparr>crossReferenceKeyList := crossReferenceKeyList st @ [crossReferenceKey pn cur]\<rparr>)
     = Some (Inr (rs0, sc))"
    "entryState cfg sch n c (stripWrappers (field_type fld)) cur (d + 1) sc path = Some (pos, s2)"
proof (cases fuel)
  case 0
  with assms show thesis by simp
next
  case (Suc n)
  with assms that [of n] show thesis
    by (auto simp: Let_def split: option.splits gqlType.splits if_splits sum.splits)
qed



text \<open>
  Nothing is removed when a call returns: every call made below a field that returns has
  returned itself, and the list it returned is an initial part of the list the field
  returns.
\<close>

lemma nested_call_returns:
  assumes "generateQuery cfg sch fuel cur pt pn d False st = Some (Inr (r, st1))"
      and "entryState cfg sch fuel cur pt pn d st path = Some ((f', c, pt', pn', d'), s2)"
  shows "\<exists>r2 s2'. generateQuery cfg sch f' c pt' pn' d' False s2 = Some (Inr (r2, s2'))
           \<and> prefix (crossReferenceKeyList s2') (crossReferenceKeyList st1)"
  using assms
proof (induction path arbitrary: fuel cur pt pn d st r st1)
  case Nil
  then show ?case by auto
next
  case (Cons a path)
  from Cons.prems(2) show ?case
  proof (cases rule: entryState_ConsE)
    case (1 n fld fs rs0 sc)
    from Cons.prems(1) [unfolded 1(1)] show ?thesis
    proof (cases rule: generateQuery_SucE)
      case (cut fld' fs')
      with 1 show ?thesis by simp
    next
      case (object fld' fs' rs st2)
      with 1 have eq: "fld' = fld" "fs' = fs" by simp_all
      from object(5) [unfolded eq] have all:
        "mapGen (\<lambda>x. generateQuery cfg sch n x (stripWrappers (field_type fld)) cur (d + 1) False)
           (childKeys cfg fs)
           (st\<lparr>crossReferenceKeyList := crossReferenceKeyList st @ [crossReferenceKey pn cur]\<rparr>)
         = Some (Inr (rs, st2))"
        by simp
      from mapGen_split [OF all 1(6)] 1(7) obtain ra sa' rs3 where
        ga: "generateQuery cfg sch n a (stripWrappers (field_type fld)) cur (d + 1) False sc
               = Some (Inr (ra, sa'))"
        and rest: "mapGen (\<lambda>x. generateQuery cfg sch n x (stripWrappers (field_type fld)) cur (d + 1) False)
           (tl (dropWhile (\<lambda>k. k \<noteq> a) (childKeys cfg fs))) sa' = Some (Inr (rs3, st2))"
        by auto
      from Cons.IH [OF ga 1(8)] obtain r2 s2' where
        "generateQuery cfg sch f' c pt' pn' d' False s2 = Some (Inr (r2, s2'))"
        "prefix (crossReferenceKeyList s2') (crossReferenceKeyList sa')"
        by blast
      moreover from mapGen_keys_prefix [OF rest] object(7)
      have "prefix (crossReferenceKeyList sa') (crossReferenceKeyList st1)" by simp
      ultimately show ?thesis by (blast intro: prefix_order.trans)
    next
      case (leaf fld')
      with 1 show ?thesis by simp
    next
      case (union fld' types q)
      with 1 show ?thesis by simp
    qed
  qed
qed



text \<open>
  Claim C1 says that the visited edges are scoped to the path: the next sibling subtree
  would be entered with the list as it was before the completed sibling ran, and an edge
  recorded in a completed sibling branch would not cut the same edge in another branch.
  In \<open>siblingSchema\<close> the children \<open>a\<close> and \<open>b\<close> of \<open>root\<close> both lead to the edge from \<open>c\<close>
  to \<open>d\<close>. The subtree of \<open>a\<close> leaves a list that is not the list it was entered with;
  entered with the list from before \<open>a\<close> ran, \<open>b\<close> expands in full; entered with the list
  \<open>a\<close> left, as the traversal does, \<open>b\<close> comes out empty, although no edge on the path
  from the root to \<open>d\<close> below \<open>b\<close> has been visited; the document of \<open>root\<close> has no \<open>b\<close>.
\<close>

theorem sibling_edge_suppressed:
  "generateQuery (limitConfig 100) siblingSchema 10 ''a'' ''R'' ''root'' 2 False belowRoot
     = Some (Inr (QueryResult ''        a{\<newline>            c{\<newline>                d{\<newline>                    v\<newline>                }\<newline>            }\<newline>        }'', afterSiblingA))
   \<and> crossReferenceKeyList afterSiblingA \<noteq> crossReferenceKeyList belowRoot
   \<and> map_option (map_sum id fst)
         (generateQuery (limitConfig 100) siblingSchema 10 ''b'' ''R'' ''root'' 2 False belowRoot)
     = Some (Inr (QueryResult ''        b{\<newline>            c{\<newline>                d{\<newline>                    v\<newline>                }\<newline>            }\<newline>        }''))
   \<and> map_option (map_sum id fst)
         (generateQuery (limitConfig 100) siblingSchema 10 ''b'' ''R'' ''root'' 2 False afterSiblingA)
     = Some (Inr (QueryResult []))
   \<and> map_option (map_sum id fst)
         (generateQuery (limitConfig 100) siblingSchema 10 ''root'' ''Query'' ''undefined'' 1 False emptyState)
     = Some (Inr (QueryResult ''    root{\<newline>        a{\<newline>            c{\<newline>                d{\<newline>                    v\<newline>                }\<newline>            }\<newline>        }\<newline>    }''))"
  by code_simp

text \<open>
  Claim C1, amended. The visited-edge list is one list shared by the whole traversal, not
  scoped to the path. When the children of a field are expanded one after the other, the
  first child returns a list that extends the list it was entered with, and the remaining
  children are entered with exactly the list the first child left. Outside a union
  fragment nothing recorded below the first child is removed when it returns: every
  call made below it, at whatever depth, has returned a list that is an initial part of
  the list the child leaves, so that the edge of every object-typed field expanded in the
  completed subtree, the child itself included, is in that list. Every object-typed
  field whose edge key is in the list the child left is cut (it returns the empty string
  and changes nothing) in every state whose list extends it, whoever recorded the key.
\<close>

theorem sibling_enters_with_left_list:
  assumes run: "mapGen (\<lambda>c. generateQuery cfg sch fuel c pt pn d fu) (x # xs) st = Some (Inr (rs, st'))"
  shows "\<exists>r st1 rs'.
      generateQuery cfg sch fuel x pt pn d fu st = Some (Inr (r, st1))
    \<and> mapGen (\<lambda>c. generateQuery cfg sch fuel c pt pn d fu) xs st1 = Some (Inr (rs', st'))
    \<and> rs = r # rs'
    \<and> prefix (crossReferenceKeyList st) (crossReferenceKeyList st1)
    \<and> (\<not> fu \<longrightarrow>
         (\<forall>path f' c t' n' d' s2.
            entryState cfg sch fuel x pt pn d st path = Some ((f', c, t', n', d'), s2)
            \<longrightarrow> (\<exists>r2 s2'.
                   generateQuery cfg sch f' c t' n' d' False s2 = Some (Inr (r2, s2'))
                 \<and> prefix (crossReferenceKeyList s2') (crossReferenceKeyList st1)
                 \<and> (objectTyped sch t' c \<and> r2 \<noteq> EmptyString
                      \<longrightarrow> crossReferenceKey n' c \<in> set (crossReferenceKeyList st1)))))
    \<and> (\<forall>s c t' n' d' fu' n.
          prefix (crossReferenceKeyList st1) (crossReferenceKeyList s)
          \<and> objectTyped sch t' c \<and> crossReferenceKey n' c \<in> set (crossReferenceKeyList st1)
          \<longrightarrow> generateQuery cfg sch (Suc n) c t' n' d' fu' s = Some (Inr (EmptyString, s)))"
proof -
  from run obtain r st1 rs' where
    g: "generateQuery cfg sch fuel x pt pn d fu st = Some (Inr (r, st1))"
    and m: "mapGen (\<lambda>c. generateQuery cfg sch fuel c pt pn d fu) xs st1 = Some (Inr (rs', st'))"
    and rs: "rs = r # rs'"
    by (auto split: option.splits sum.splits)
  have p: "prefix (crossReferenceKeyList st) (crossReferenceKeyList st1)"
    by (rule generateQuery_keys_prefix [OF g])
  have deep: "\<exists>r2 s2'.
                   generateQuery cfg sch f' c t' n' d' False s2 = Some (Inr (r2, s2'))
                 \<and> prefix (crossReferenceKeyList s2') (crossReferenceKeyList st1)
                 \<and> (objectTyped sch t' c \<and> r2 \<noteq> EmptyString
                      \<longrightarrow> crossReferenceKey n' c \<in> set (crossReferenceKeyList st1))"
    if nf: "\<not> fu"
      and e: "entryState cfg sch fuel x pt pn d st path = Some ((f', c, t', n', d'), s2)"
    for path f' c t' n' d' s2
  proof -
    from g nf have g': "generateQuery cfg sch fuel x pt pn d False st = Some (Inr (r, st1))" by simp
    from nested_call_returns [OF g' e] obtain r2 s2' where
      r2: "generateQuery cfg sch f' c t' n' d' False s2 = Some (Inr (r2, s2'))"
      and p2: "prefix (crossReferenceKeyList s2') (crossReferenceKeyList st1)"
      by blast
    have "crossReferenceKey n' c \<in> set (crossReferenceKeyList st1)"
      if "objectTyped sch t' c" "r2 \<noteq> EmptyString"
      using expanded_edge_recorded [OF r2 that] p2 by (auto dest: set_mono_prefix)
    with r2 p2 show ?thesis by blast
  qed
  have cut: "generateQuery cfg sch (Suc n) c t' n' d' fu' s = Some (Inr (EmptyString, s))"
    if "prefix (crossReferenceKeyList st1) (crossReferenceKeyList s)
          \<and> objectTyped sch t' c \<and> crossReferenceKey n' c \<in> set (crossReferenceKeyList st1)"
    for s c t' n' d' fu' n
    using that by (intro visited_edge_cut) (auto dest: set_mono_prefix)
  from g m rs p deep cut show ?thesis by blast
qed

theorem sibling_enters_with_left_list_witness:
  "generateQuery (limitConfig 100) siblingSchema 9 ''a'' ''R'' ''root'' 2 False belowRoot
     = Some (Inr (QueryResult ''        a{\<newline>            c{\<newline>                d{\<newline>                    v\<newline>                }\<newline>            }\<newline>        }'', afterSiblingA))
   \<and> entryState (limitConfig 100) siblingSchema 9 ''a'' ''R'' ''root'' 2 belowRoot [''c'', ''d'']
     = Some ((7, ''d'', ''C'', ''c'', 4), belowA)
   \<and> crossReferenceKey ''c'' ''d'' \<in> set (crossReferenceKeyList afterSiblingA)
   \<and> generateQuery (limitConfig 100) siblingSchema 7 ''d'' ''C'' ''c'' 4 False belowB
     = Some (Inr (EmptyString, belowB))"
proof -
  have a: "generateQuery (limitConfig 100) siblingSchema 9 ''a'' ''R'' ''root'' 2 False belowRoot
     = Some (Inr (QueryResult ''        a{\<newline>            c{\<newline>                d{\<newline>                    v\<newline>                }\<newline>            }\<newline>        }'', afterSiblingA))"
    by code_simp
  have e: "entryState (limitConfig 100) siblingSchema 9 ''a'' ''R'' ''root'' 2 belowRoot [''c'', ''d'']
     = Some ((7, ''d'', ''C'', ''c'', 4), belowA)"
    by code_simp
  have dd: "generateQuery (limitConfig 100) siblingSchema 7 ''d'' ''C'' ''c'' 4 False belowA
     = Some (Inr (QueryResult ''                d{\<newline>                    v\<newline>                }'', afterSiblingA))"
    by code_simp
  have o: "objectTyped siblingSchema ''C'' ''d''"
    by code_simp
  have pb: "prefix (crossReferenceKeyList afterSiblingA) (crossReferenceKeyList belowB)"
    by code_simp
  have "mapGen (\<lambda>c. generateQuery (limitConfig 100) siblingSchema 9 c ''R'' ''root'' 2 False)
          (''a'' # [''b'']) belowRoot
        = Some (Inr ([QueryResult ''        a{\<newline>            c{\<newline>                d{\<newline>                    v\<newline>                }\<newline>            }\<newline>        }'', QueryResult []],
            belowB))"
    by code_simp
  from sibling_enters_with_left_list [OF this] obtain r st1 where
    g: "generateQuery (limitConfig 100) siblingSchema 9 ''a'' ''R'' ''root'' 2 False belowRoot
          = Some (Inr (r, st1))"
    and deep: "\<And>path f' c t' n' d' s2.
            entryState (limitConfig 100) siblingSchema 9 ''a'' ''R'' ''root'' 2 belowRoot path
              = Some ((f', c, t', n', d'), s2)
            \<Longrightarrow> \<exists>r2 s2'.
                   generateQuery (limitConfig 100) siblingSchema f' c t' n' d' False s2 = Some (Inr (r2, s2'))
                 \<and> prefix (crossReferenceKeyList s2') (crossReferenceKeyList st1)
                 \<and> (objectTyped siblingSchema t' c \<and> r2 \<noteq> EmptyString
                      \<longrightarrow> crossReferenceKey n' c \<in> set (crossReferenceKeyList st1))"
    and cut: "\<And>s c t' n' d' fu' n.
          prefix (crossReferenceKeyList st1) (crossReferenceKeyList s)
          \<and> objectTyped siblingSchema t' c \<and> crossReferenceKey n' c \<in> set (crossReferenceKeyList st1)
          \<Longrightarrow> generateQuery (limitConfig 100) siblingSchema (Suc n) c t' n' d' fu' s = Some (Inr (EmptyString, s))"
    by blast
  from g a have st1: "st1 = afterSiblingA" by simp
  from deep [OF e] dd o have k: "crossReferenceKey ''c'' ''d'' \<in> set (crossReferenceKeyList afterSiblingA)"
    unfolding st1 by auto
  from cut [of belowB "''C''" "''d''" "''c''" 6 4 False] pb o k
  have "generateQuery (limitConfig 100) siblingSchema (Suc 6) ''d'' ''C'' ''c'' 4 False belowB
          = Some (Inr (EmptyString, belowB))"
    unfolding st1 by blast
  then have c: "generateQuery (limitConfig 100) siblingSchema 7 ''d'' ''C'' ''c'' 4 False belowB
          = Some (Inr (EmptyString, belowB))"
    by (simp only: eval_nat_numeral)
  show ?thesis
    using a e k c by (intro conjI)
qed




text \<open>
  The fields of the statement are of object type. A field of union type does not reach
  line 88: its edge is neither looked up nor recorded, and in \<open>unionEdgeSchema\<close> the
  selection of \<open>u\<close> below \<open>x\<close> is written below \<open>a\<close> and again below \<open>b\<close>.
\<close>

lemma union_edge_rendered_twice:
  "map_option (map_sum id fst)
     (generateQuery (limitConfig 100) unionEdgeSchema 10 ''root'' ''Query'' ''undefined'' 1 False emptyState)
   = Some (Inr (QueryResult ''    root{\<newline>        a{\<newline>            x{\<newline>                u{\<newline>                    ... on M {\<newline>                        m\<newline>                    }\<newline>                }\<newline>            }\<newline>        }\<newline>        b{\<newline>            x{\<newline>                u{\<newline>                    ... on M {\<newline>                        m\<newline>                    }\<newline>                }\<newline>            }\<newline>        }\<newline>    }''))"
  by code_simp

section \<open>Cyclic types\<close>

text \<open>
  The cycle and depth checks of line 89 are made only when the type of the field has
  fields of its own. A field of a union type passes neither check, and lines 127 to 134
  call \<^verbatim>\<open>generateQuery\<close> for every field of every member type. In \<open>unionCycleSchema\<close> the
  member \<open>A\<close> of the union \<open>U\<close> has a field \<open>u\<close> of type \<open>U\<close>: the call for \<open>u\<close> calls
  itself two levels deeper, without end.
\<close>

lemma unionCycle_inner:
  "generateQuery cfg unionCycleSchema fuel ''u'' ''A'' pn d True st = None"
proof (induction fuel arbitrary: pn d st)
  case 0
  show ?case by (simp add: generateQuery.simps)
next
  case (Suc fuel)
  have f: "getField unionCycleSchema ''A'' ''u'' = Some (plainField ''u'' ''U'' [])"
    by (simp add: getField_def getType_def unionCycleSchema_def plainField_def)
  have t: "getType unionCycleSchema ''U'' = Some (UnionType [''A''])"
    by (simp add: getType_def unionCycleSchema_def)
  have a: "getType unionCycleSchema ''A'' = Some (ObjectType [plainField ''u'' ''U'' []])"
    by (simp add: getType_def unionCycleSchema_def)
  show ?case
    by (simp add: generateQuery.simps(2) f t a Suc.IH unionPart_def plainField_def stripWrappers_def
        Let_def split: prod.splits)
qed

text \<open>
  Claim C2 (the code departs from it). Termination on every schema fails on
  \<^verbatim>\<open>type Query { root: U }  union U = A  type A { u: U }\<close>: whatever the configuration
  and however large the recursion budget, the call for the root field has not returned.
\<close>

theorem union_cycle_never_returns:
  "generateQuery cfg unionCycleSchema fuel ''root'' ''Query'' ''undefined'' 1 False emptyState = None"
proof (cases fuel)
  case 0
  then show ?thesis by (simp add: generateQuery.simps)
next
  case (Suc n)
  have f: "getField unionCycleSchema ''Query'' ''root'' = Some (plainField ''root'' ''U'' [])"
    by (simp add: getField_def getType_def unionCycleSchema_def plainField_def)
  have t: "getType unionCycleSchema ''U'' = Some (UnionType [''A''])"
    by (simp add: getType_def unionCycleSchema_def)
  have a: "getType unionCycleSchema ''A'' = Some (ObjectType [plainField ''u'' ''U'' []])"
    by (simp add: getType_def unionCycleSchema_def)
  show ?thesis
    by (simp add: Suc generateQuery.simps(2) f t a unionCycle_inner unionPart_def plainField_def
        stripWrappers_def Let_def split: prod.splits)
qed

section \<open>Properties of the argument binder\<close>

text \<open>
  For an argument whose name is not the name of a property inherited from
  \<^verbatim>\<open>Object.prototype\<close>, the \<^verbatim>\<open>reduce\<close> step is the three-case rule over the own entries of
  the counters and of the operation-wide dictionary.
\<close>

lemma bindArg_ordinary_name:
  assumes "inheritedText (arg_name a) = None"
  shows "bindArg allArgsDict (counts, dict) a =
     (case map_of counts (arg_name a) of
        Some v \<Rightarrow> (setProperty counts (arg_name a) (plusOne v),
                   setProperty dict (arg_name a @ showVal (plusOne v)) a)
      | None \<Rightarrow>
          if map_of allArgsDict (arg_name a) \<noteq> None
          then (setProperty counts (arg_name a) (Num 1), setProperty dict (arg_name a @ ''1'') a)
          else (counts, setProperty dict (arg_name a) a))"
proof -
  from assms have "arg_name a \<noteq> ''__proto__''"
    by (auto simp: inheritedText_def)
  with assms show ?thesis
    by (auto simp: getProperty_def truthyProperty_def setCount_def Let_def split: option.splits)
qed

text \<open>
  The names the binder stores bindings under are never \<^verbatim>\<open>__proto__\<close>: an indexed name
  ends in a digit, and a name bound unchanged has no inherited property. So every
  assignment to the field's dictionary and every \<^verbatim>\<open>Object.assign\<close> into the
  operation-wide dictionary creates or overwrites an own property, as \<open>setProperty\<close>
  does.
\<close>

lemma set_setProperty: "set (setProperty obj k v) \<subseteq> insert (k, v) (set obj)"
  by (induction obj) (auto split: if_splits)

lemma showNat_last_digit: "showNat n \<noteq> [] \<and> last (showNat n) \<in> set ''0123456789''"
proof -
  have digit: "''0123456789'' ! k \<in> set ''0123456789''" if "k < 10" for k
  proof -
    from that have "k \<in> {0, 1, 2, 3, 4, 5, 6, 7, 8, 9}" by auto
    then show ?thesis by auto
  qed
  show ?thesis
  proof (cases "n < 10")
    case True
    with digit [of n] show ?thesis by (subst (1 2) showNat.simps) simp
  next
    case False
    have "n mod 10 < 10" by simp
    from digit [OF this] False show ?thesis by (subst (1 2) showNat.simps) simp
  qed
qed

lemma bound_name_never_proto:
  assumes "k \<in> fst ` set (snd (bindArg allArgsDict (counts, dict) a))"
  shows "k \<in> fst ` set dict \<or> k \<noteq> ''__proto__''"
proof -
  have one: "s @ ''1'' \<noteq> ''__proto__''" for s :: string
  proof
    assume "s @ ''1'' = ''__proto__''"
    then have "last (s @ ''1'') = last ''__proto__''" by simp
    then show False by simp
  qed
  have num: "s @ showNat n \<noteq> ''__proto__''" for s n
  proof
    assume e: "s @ showNat n = ''__proto__''"
    from showNat_last_digit [of n] have "last (s @ showNat n) \<in> set ''0123456789''" by simp
    with e show False by simp
  qed
  have val: "s @ showVal (plusOne v) \<noteq> ''__proto__''" for s v
  proof (cases v)
    case (Num n)
    with num [of s "n + 1"] show ?thesis by simp
  next
    case (Str t)
    with one [of "s @ t"] show ?thesis by simp
  qed
  show ?thesis
  proof (cases "getProperty counts (arg_name a)")
    case (Some v)
    with assms set_setProperty [of dict "arg_name a @ showVal (plusOne v)" a] val [of "arg_name a" v]
    show ?thesis by (auto simp: Let_def)
  next
    case None
    then have "arg_name a \<noteq> ''__proto__''"
      by (auto simp: getProperty_def inheritedText_def split: option.splits)
    with None assms set_setProperty [of dict "arg_name a @ ''1''" a] set_setProperty [of dict "arg_name a" a]
      one [of "arg_name a"]
    show ?thesis by (auto split: if_splits)
  qed
qed

text \<open>
  Claim C5 (the code departs from it). The three-case rule binds an argument whose name
  has no entry in the counters and is no key of the dictionary to its name unchanged.
  Line 30 tests \<^verbatim>\<open>arg.name in duplicateArgCounts\<close> on an object literal, which is also
  true of the names every object inherits. For the argument \<^verbatim>\<open>constructor\<close> of
  \<^verbatim>\<open>type Query { f(constructor: String): Int }\<close>, with empty counters and an empty
  dictionary, the first branch is taken: the index is the inherited function plus one,
  a string, and that string is appended to the name.
\<close>

theorem inherited_name_binding:
  "getFieldArgsDict (plainField ''f'' ''Int'' [\<lparr>arg_name = ''constructor'', arg_type = ''String''\<rparr>]) [] []
     = ([(''constructor'', Str ''function Object() { [native code] }1'')],
        [(''constructorfunction Object() { [native code] }1'',
          \<lparr>arg_name = ''constructor'', arg_type = ''String''\<rparr>)])
   \<and> generateFile (limitConfig 100) constructorSchema (1 + n) ''Query'' ''f''
     = Some (Inr (Some (''query f($constructorfunction Object() { [native code] }1: String){\<newline>''
          @ ''    f(constructor: $constructorfunction Object() { [native code] }1)\<newline>}'')))"
proof
  show "getFieldArgsDict (plainField ''f'' ''Int'' [\<lparr>arg_name = ''constructor'', arg_type = ''String''\<rparr>]) [] []
     = ([(''constructor'', Str ''function Object() { [native code] }1'')],
        [(''constructorfunction Object() { [native code] }1'',
          \<lparr>arg_name = ''constructor'', arg_type = ''String''\<rparr>)])"
    by code_simp
next
  have "generateFile (limitConfig 100) constructorSchema 1 ''Query'' ''f''
     = Some (Inr (Some (''query f($constructorfunction Object() { [native code] }1: String){\<newline>''
          @ ''    f(constructor: $constructorfunction Object() { [native code] }1)\<newline>}'')))"
    by code_simp
  then show "generateFile (limitConfig 100) constructorSchema (1 + n) ''Query'' ''f''
     = Some (Inr (Some (''query f($constructorfunction Object() { [native code] }1: String){\<newline>''
          @ ''    f(constructor: $constructorfunction Object() { [native code] }1)\<newline>}'')))"
    by (rule generateFile_fuel_mono)
qed

text \<open>
  Claim C4 (the code departs from it). Variable names would be unique within one
  document. In
  \<^verbatim>\<open>type Query { root: R }  type R { a(id1: Int): Int  b(id: Int): Int  c(id: String): Int }\<close>
  the argument \<open>id1\<close> of \<open>a\<close> binds to \<open>id1\<close>, the argument \<open>id\<close> of \<open>b\<close> to \<open>id\<close>, and
  the argument \<open>id\<close> of \<open>c\<close>, deduplicated, to \<open>id1\<close> again: \<^verbatim>\<open>Object.assign\<close> overwrites
  the entry of \<open>a\<close>, the signature declares \<open>$id1\<close> once, with the type of the argument
  of \<open>c\<close>, and the call sites of \<open>a\<close> and \<open>c\<close> both refer to it.
\<close>

theorem colliding_variable_names:
  "generateQuery (limitConfig 100) collisionSchema (2 + n) ''root'' ''Query'' ''undefined'' 1 False emptyState
     = Some (Inr (QueryResult ''    root{\<newline>        a(id1: $id1)\<newline>        b(id: $id)\<newline>        c(id: $id1)\<newline>    }'',
         \<lparr>argumentsDict = [(''id1'', \<lparr>arg_name = ''id'', arg_type = ''String''\<rparr>),
                            (''id'', \<lparr>arg_name = ''id'', arg_type = ''Int''\<rparr>)],
            duplicateArgCounts = [(''id'', Num 1)],
            crossReferenceKeyList = [''undefinedTorootKey'']\<rparr>))
   \<and> generateFile (limitConfig 100) collisionSchema (2 + n) ''Query'' ''root''
     = Some (Inr (Some ''query root($id1: String, $id: Int){\<newline>    root{\<newline>        a(id1: $id1)\<newline>        b(id: $id)\<newline>        c(id: $id1)\<newline>    }\<newline>}''))"
proof
  have "generateQuery (limitConfig 100) collisionSchema 2 ''root'' ''Query'' ''undefined'' 1 False emptyState
     = Some (Inr (QueryResult ''    root{\<newline>        a(id1: $id1)\<newline>        b(id: $id)\<newline>        c(id: $id1)\<newline>    }'',
         \<lparr>argumentsDict = [(''id1'', \<lparr>arg_name = ''id'', arg_type = ''String''\<rparr>),
                            (''id'', \<lparr>arg_name = ''id'', arg_type = ''Int''\<rparr>)],
            duplicateArgCounts = [(''id'', Num 1)],
            crossReferenceKeyList = [''undefinedTorootKey'']\<rparr>))"
    by code_simp
  then show "generateQuery (limitConfig 100) collisionSchema (2 + n) ''root'' ''Query'' ''undefined'' 1 False emptyState
     = Some (Inr (QueryResult ''    root{\<newline>        a(id1: $id1)\<newline>        b(id: $id)\<newline>        c(id: $id1)\<newline>    }'',
         \<lparr>argumentsDict = [(''id1'', \<lparr>arg_name = ''id'', arg_type = ''String''\<rparr>),
                            (''id'', \<lparr>arg_name = ''id'', arg_type = ''Int''\<rparr>)],
            duplicateArgCounts = [(''id'', Num 1)],
            crossReferenceKeyList = [''undefinedTorootKey'']\<rparr>))"
    by (rule generateQuery_fuel_mono)
next
  have "generateFile (limitConfig 100) collisionSchema 2 ''Query'' ''root''
     = Some (Inr (Some ''query root($id1: String, $id: Int){\<newline>    root{\<newline>        a(id1: $id1)\<newline>        b(id: $id)\<newline>        c(id: $id1)\<newline>    }\<newline>}''))"
    by code_simp
  then show "generateFile (limitConfig 100) collisionSchema (2 + n) ''Query'' ''root''
     = Some (Inr (Some ''query root($id1: String, $id: Int){\<newline>    root{\<newline>        a(id1: $id1)\<newline>        b(id: $id)\<newline>        c(id: $id1)\<newline>    }\<newline>}''))"
    by (rule generateFile_fuel_mono)
qed

section \<open>Union types\<close>

lemma union_field_keeps_keys:
  assumes f: "getField sch pt cur = Some fld"
      and t: "getType sch (stripWrappers (field_type fld)) = Some (UnionType types)"
      and run: "generateQuery cfg sch fuel cur pt pn d fu st = Some (Inr (r, st'))"
  shows "crossReferenceKeyList st' = crossReferenceKeyList st"
proof (cases fuel)
  case 0
  with run show ?thesis by (simp add: generateQuery.simps(1))
next
  case (Suc n)
  from run [unfolded Suc] show ?thesis
  proof (cases rule: generateQuery_SucE)
    case (union fld' types' q)
    have "crossReferenceKeyList st' = crossReferenceKeyList (snd (renderField cfg fld' d False [] st))"
      by (rule unionPart_rel [where R = "\<lambda>s s'. crossReferenceKeyList s' = crossReferenceKeyList s",
            OF _ _ _ union(3)])
         (auto dest: generateQuery_fromUnion_keys)
    then show ?thesis by simp
  qed (use f t in simp_all)
qed

text \<open>
  Lines 130 to 134 call \<^verbatim>\<open>generateQuery\<close> for every field of a member type: the filter
  of lines 95 to 99, which drops the deprecated fields of an object type, is not applied
  to the fields of a member of a union. A member whose fields all lead to nothing adds no
  fragment: in \<open>twoMemberSchema\<close> the only field of \<open>B\<close> is of type \<open>C\<close>, whose only
  field is deprecated.
\<close>

lemma empty_member_adds_no_fragment:
  "generateQuery (limitConfig 5) twoMemberSchema (3 + n) ''u'' ''Query'' ''undefined'' 1 False emptyState
     = Some (Inr (QueryResult ''    u{\<newline>        ... on A {\<newline>            x\<newline>        }\<newline>    }'', emptyState))"
proof -
  have "generateQuery (limitConfig 5) twoMemberSchema 3 ''u'' ''Query'' ''undefined'' 1 False emptyState
     = Some (Inr (QueryResult ''    u{\<newline>        ... on A {\<newline>            x\<newline>        }\<newline>    }'', emptyState))"
    by code_simp
  then show ?thesis by (rule generateQuery_fuel_mono)
qed

text \<open>
  Claim C6 (the code departs from it). The members of a union would be expanded like an
  object type, without their deprecated fields, and a union of two members of which one
  has nothing to expand would be rendered with exactly one fragment. In
  \<^verbatim>\<open>type Query { u: U  b: B }  union U = A | B  type A { x: Int }  type B { y: Int @deprecated }\<close>
  with deprecated fields excluded, the only field of \<open>B\<close> is deprecated. Reached through
  the field \<open>b\<close> of type \<open>B\<close>, the deprecated field is dropped and \<open>b\<close>, left without
  children, is omitted. Reached through the union, the deprecated field \<open>y\<close> is selected
  and the selection of \<open>u\<close> holds two fragments. This holds with every recursion budget
  from 2 on.
\<close>

theorem deprecated_member_field_selected:
  "generateQuery (limitConfig 5) deprecatedMemberSchema (2 + n) ''u'' ''Query'' ''undefined'' 1 False emptyState
     = Some (Inr (QueryResult ''    u{\<newline>        ... on A {\<newline>            x\<newline>        }\<newline>        ... on B {\<newline>            y\<newline>        }\<newline>    }'', emptyState))
   \<and> generateQuery (limitConfig 5) deprecatedMemberSchema (2 + n) ''b'' ''Query'' ''undefined'' 1 False emptyState
     = Some (Inr (QueryResult [], emptyState\<lparr>crossReferenceKeyList := [''undefinedTobKey'']\<rparr>))"
proof -
  have "generateQuery (limitConfig 5) deprecatedMemberSchema 2 ''u'' ''Query'' ''undefined'' 1 False emptyState
     = Some (Inr (QueryResult ''    u{\<newline>        ... on A {\<newline>            x\<newline>        }\<newline>        ... on B {\<newline>            y\<newline>        }\<newline>    }'', emptyState))"
    by code_simp
  moreover
  have "generateQuery (limitConfig 5) deprecatedMemberSchema 2 ''b'' ''Query'' ''undefined'' 1 False emptyState
     = Some (Inr (QueryResult [], emptyState\<lparr>crossReferenceKeyList := [''undefinedTobKey'']\<rparr>))"
    by code_simp
  ultimately show ?thesis
    by (intro conjI generateQuery_fuel_mono)
qed

text \<open>
  Claim C7 (the code departs from it). A field of union type whose members all expand
  to nothing would be left out. Lines 125 and 141 add the braces whether or not a
  fragment was written. In
  \<^verbatim>\<open>type Query { r: R }  type R { u: U }  union U = A  type A { b: B }  type B { x: Int }\<close>
  with depth limit 1 the only field of the only member is cut by the depth limit, and
  \<open>u\<close> is rendered as its name followed by an empty pair of braces.
\<close>

theorem union_rendered_with_empty_braces:
  "generateQuery (limitConfig 1) emptyUnionSchema (3 + n) ''r'' ''Query'' ''undefined'' 1 False emptyState
     = Some (Inr (QueryResult ''    r{\<newline>        u{\<newline>        }\<newline>    }'',
         \<lparr>argumentsDict = [], duplicateArgCounts = [], crossReferenceKeyList = [''undefinedTorKey'']\<rparr>))"
proof -
  have "generateQuery (limitConfig 1) emptyUnionSchema 3 ''r'' ''Query'' ''undefined'' 1 False emptyState
     = Some (Inr (QueryResult ''    r{\<newline>        u{\<newline>        }\<newline>    }'',
         \<lparr>argumentsDict = [], duplicateArgCounts = [], crossReferenceKeyList = [''undefinedTorKey'']\<rparr>))"
    by code_simp
  then show ?thesis by (rule generateQuery_fuel_mono)
qed

section \<open>Arguments of nested fields\<close>

lemma set_joinWith: "set (joinWith sep xs) \<subseteq> set sep \<union> \<Union> (set ` set xs)"
  by (induction sep xs rule: joinWith.induct) auto

lemma set_indent: "set (indent n) \<subseteq> {CHR '' ''}"
  by (induction n) (auto simp: indent_def)

lemma mapGen_results:
  assumes "\<And>x s y s'. gen x s = Some (Inr (y, s')) \<Longrightarrow> P y"
  shows "mapGen gen xs st = Some (Inr (ys, st')) \<Longrightarrow> \<forall>y \<in> set ys. P y"
proof (induction xs arbitrary: st ys)
  case Nil
  then show ?case by simp
next
  case (Cons x xs)
  from Cons.prems obtain y s1 ys' where
    g: "gen x st = Some (Inr (y, s1))" and m: "mapGen gen xs s1 = Some (Inr (ys', st'))"
    and ys: "ys = y # ys'"
    by (auto split: option.splits sum.splits)
  from assms [OF g] Cons.IH [OF m] ys show ?case by simp
qed

lemma joinTruthy_parenFree:
  assumes "\<forall>r \<in> set rs. parenFree r"
  shows "CHR ''('' \<notin> set (joinTruthy rs)"
proof -
  have "\<And>s. s \<in> set (map the (filter truthyStr (map queryStrOf rs))) \<Longrightarrow> CHR ''('' \<notin> set s"
  proof -
    fix s assume "s \<in> set (map the (filter truthyStr (map queryStrOf rs)))"
    then obtain r where r: "r \<in> set rs" and s: "truthyStr (queryStrOf r)" "s = the (queryStrOf r)"
      by auto
    from assms r have "parenFree r" by blast
    with s show "CHR ''('' \<notin> set s" by (cases r) (simp_all add: parenFree_def)
  qed
  with set_joinWith [of "''\<newline>''" "map the (filter truthyStr (map queryStrOf rs))"]
  show ?thesis unfolding joinTruthy_def by auto
qed

lemma getField_in_schema:
  assumes "getField sch pt cur = Some fld"
  shows "\<exists>fs. (pt, ObjectType fs) \<in> set sch \<and> fld \<in> set fs \<and> field_name fld = cur"
proof -
  from assms obtain fs where t: "map_of sch pt = Some (ObjectType fs)" and l: "lookupField fs cur = Some fld"
    by (auto simp: getField_def getType_def split: option.splits gqlType.splits)
  have "\<And>n. lookupField fs n = Some fld \<Longrightarrow> fld \<in> set fs \<and> field_name fld = n"
    by (induction fs) (auto split: if_splits)
  with l map_of_SomeD [OF t] show ?thesis by blast
qed

lemma parenFree_field_name:
  assumes "parenFreeNames sch" "getField sch pt cur = Some fld"
  shows "CHR ''('' \<notin> set (field_name fld)"
proof -
  from getField_in_schema [OF assms(2)] obtain fs where
    "(pt, ObjectType fs) \<in> set sch" "fld \<in> set fs" by blast
  with assms(1) show ?thesis
    by (auto simp: parenFreeNames_def list_all_iff)
qed

lemma parenFree_member_names:
  assumes "parenFreeNames sch" "getType sch n = Some (UnionType ts)"
  shows "\<forall>T \<in> set ts. CHR ''('' \<notin> set T"
proof -
  from assms(2) have "(n, UnionType ts) \<in> set sch"
    by (auto simp: getType_def dest: map_of_SomeD)
  with assms(1) show ?thesis
    by (auto simp: parenFreeNames_def list_all_iff)
qed

lemma renderField_nested_text:
  assumes "excludeNestedArgs cfg" "1 < d"
  shows "fst (renderField cfg fld d h cq st) =
           (if h \<and> cq = [] then []
            else indent d @ field_name fld
                 @ (if cq \<noteq> [] then ''{\<newline>'' @ cq @ ''\<newline>'' @ indent d @ ''}'' else []))"
  using assms by (simp add: renderField_def Let_def split: prod.splits)

lemma renderField_nested_parenFree:
  assumes "excludeNestedArgs cfg" "1 < d" "CHR ''('' \<notin> set (field_name fld)" "CHR ''('' \<notin> set cq"
  shows "CHR ''('' \<notin> set (fst (renderField cfg fld d h cq st))"
  using assms set_indent [of d]
  by (auto simp: renderField_nested_text)

lemma unionLoop_parenFree:
  assumes gen: "\<And>x t s y s'. gen x t s = Some (Inr (y, s')) \<Longrightarrow> parenFree y"
      and fi: "CHR ''('' \<notin> set fi"
  shows "unionLoop gen sch fi types q st = Some (Inr (q', st'))
           \<Longrightarrow> \<forall>T \<in> set types. CHR ''('' \<notin> set T \<Longrightarrow> CHR ''('' \<notin> set q \<Longrightarrow> CHR ''('' \<notin> set q'"
proof (induction types arbitrary: q st)
  case Nil
  then show ?case by simp
next
  case (Cons t types)
  from Cons.prems(1) obtain fs :: "field list" and rs s1 where
    m: "mapGen (\<lambda>cur. gen cur t) (map field_name fs) st = Some (Inr (rs, s1))"
    and u: "unionLoop gen sch fi types
              (if joinTruthy rs \<noteq> []
               then q @ fi @ ''... on '' @ t @ '' {\<newline>'' @ joinTruthy rs @ ''\<newline>'' @ fi @ ''}\<newline>''
               else q) s1 = Some (Inr (q', st'))"
    by (auto split: option.splits sum.splits gqlType.splits simp: Let_def)
  have "\<forall>y \<in> set rs. parenFree y"
    by (rule mapGen_results [where P = parenFree, OF _ m]) (rule gen)
  then have j: "CHR ''('' \<notin> set (joinTruthy rs)"
    by (rule joinTruthy_parenFree)
  show ?case
  proof (rule Cons.IH [OF u])
    show "\<forall>T \<in> set types. CHR ''('' \<notin> set T" using Cons.prems(2) by simp
    show "CHR ''('' \<notin> set (if joinTruthy rs \<noteq> []
               then q @ fi @ ''... on '' @ t @ '' {\<newline>'' @ joinTruthy rs @ ''\<newline>'' @ fi @ ''}\<newline>''
               else q)"
      using Cons.prems(2,3) j fi by auto
  qed
qed

lemma generateQuery_nested_parenFree:
  assumes ex: "excludeNestedArgs cfg" and names: "parenFreeNames sch"
  shows "1 < d \<Longrightarrow> generateQuery cfg sch fuel cur pt pn d fu st = Some (Inr (r, st')) \<Longrightarrow> parenFree r"
proof (induction fuel arbitrary: cur pt pn d fu st r st')
  case 0
  then show ?case by (simp add: generateQuery.simps(1))
next
  case (Suc fuel)
  note d = \<open>1 < d\<close>
  have IH1: "parenFree y"
    if "generateQuery cfg sch fuel x t p (d + 1) f s = Some (Inr (y, s'))" for x t p f s y s'
  proof -
    from d have "1 < d + 1" by simp
    then show ?thesis using that by (rule Suc.IH)
  qed
  have IH2: "parenFree y"
    if "generateQuery cfg sch fuel x t p (d + 2) f s = Some (Inr (y, s'))" for x t p f s y s'
  proof -
    from d have "1 < d + 2" by simp
    then show ?thesis using that by (rule Suc.IH)
  qed
  from Suc.prems(2) show ?case
  proof (cases rule: generateQuery_SucE)
    case (cut fld fs)
    then show ?thesis by (simp add: parenFree_def)
  next
    case (object fld fs rs st2)
    have "\<forall>y \<in> set rs. parenFree y"
      by (rule mapGen_results [where P = parenFree, OF _ object(5)]) (rule IH1)
    then have "CHR ''('' \<notin> set (joinTruthy rs)"
      by (rule joinTruthy_parenFree)
    with object(6) parenFree_field_name [OF names object(1)] show ?thesis
      by (simp add: parenFree_def renderField_nested_parenFree [OF ex d])
  next
    case (leaf fld)
    with parenFree_field_name [OF names leaf(1)] show ?thesis
      by (simp add: parenFree_def renderField_nested_parenFree [OF ex d])
  next
    case (union fld types q)
    have q0: "CHR ''('' \<notin> set (fst (renderField cfg fld d False [] st))"
      using parenFree_field_name [OF names union(1)]
      by (simp add: renderField_nested_parenFree [OF ex d])
    have "CHR ''('' \<notin> set q"
    proof (cases "types = []")
      case True
      with union(3) q0 show ?thesis by (simp add: unionPart_def)
    next
      case False
      with union(3) obtain q1 where
        u: "unionLoop (\<lambda>c t. generateQuery cfg sch fuel c t cur (d + 2) True) sch (indent (d + 1)) types
              (fst (renderField cfg fld d False [] st) @ ''{\<newline>'')
              (snd (renderField cfg fld d False [] st)) = Some (Inr (q1, st'))"
        and q: "q = q1 @ indent d @ ''}''"
        by (auto simp: unionPart_def split: option.splits sum.splits)
      have "CHR ''('' \<notin> set q1"
      proof (rule unionLoop_parenFree [OF _ _ u])
        show "\<And>x t s y s'. generateQuery cfg sch fuel x t cur (d + 2) True s = Some (Inr (y, s'))
                \<Longrightarrow> parenFree y"
          by (rule IH2)
        show "CHR ''('' \<notin> set (indent (d + 1))" using set_indent [of "d + 1"] by auto
        show "\<forall>T \<in> set types. CHR ''('' \<notin> set T" by (rule parenFree_member_names [OF names union(2)])
        show "CHR ''('' \<notin> set (fst (renderField cfg fld d False [] st) @ ''{\<newline>'')" using q0 by simp
      qed
      with q set_indent [of d] show ?thesis by auto
    qed
    with union(4) show ?thesis by (simp add: parenFree_def)
  qed
qed

lemma renderField_args:
  "argumentsDict (snd (renderField cfg fld d h cq st)) = argumentsDict st
   \<or> argumentsDict (snd (renderField cfg fld d h cq st))
       = objectAssign (argumentsDict st)
           (snd (getFieldArgsDict fld (duplicateArgCounts st) (argumentsDict st)))"
  by (simp add: renderField_def Let_def split: prod.splits)

lemma mapGen_nested_args_frame:
  assumes "excludeNestedArgs cfg" "1 < d"
      and "mapGen (\<lambda>c. generateQuery cfg sch fuel c pt pn d fu) xs st = Some (Inr (rs, st'))"
  shows "argumentsDict st' = argumentsDict st \<and> duplicateArgCounts st' = duplicateArgCounts st"
  by (rule mapGen_rel [where R = "\<lambda>s s'. argumentsDict s' = argumentsDict s
                                     \<and> duplicateArgCounts s' = duplicateArgCounts s", OF _ _ _ assms(3)])
     (auto dest: generateQuery_nested_args_frame [OF assms(1,2)])

lemma unionPart_nested_args_frame:
  assumes "excludeNestedArgs cfg" "1 < d"
      and "unionPart (\<lambda>c t. generateQuery cfg sch fuel c t pn d True) sch ct d' q st = Some (Inr (q', st'))"
  shows "argumentsDict st' = argumentsDict st \<and> duplicateArgCounts st' = duplicateArgCounts st"
  by (rule unionPart_rel [where R = "\<lambda>s s'. argumentsDict s' = argumentsDict s
                                     \<and> duplicateArgCounts s' = duplicateArgCounts s", OF _ _ _ assms(3)])
     (auto dest: generateQuery_nested_args_frame [OF assms(1,2)])

lemma root_binds_own_arguments:
  assumes ex: "excludeNestedArgs cfg"
      and run: "generateQuery cfg sch fuel cur pt pn 1 fu st = Some (Inr (r, st'))"
  shows "\<exists>fld. getField sch pt cur = Some fld
         \<and> (argumentsDict st' = argumentsDict st
            \<or> argumentsDict st'
                = objectAssign (argumentsDict st)
                    (snd (getFieldArgsDict fld (duplicateArgCounts st) (argumentsDict st))))"
proof (cases fuel)
  case 0
  with run show ?thesis by (simp add: generateQuery.simps(1))
next
  case (Suc n)
  from run [unfolded Suc] show ?thesis
  proof (cases rule: generateQuery_SucE)
    case (cut fld fs)
    then show ?thesis by simp
  next
    case (object fld fs rs st2)
    let ?st1 = "if \<not> fu then st\<lparr>crossReferenceKeyList := crossReferenceKeyList st @ [crossReferenceKey pn cur]\<rparr> else st"
    have "argumentsDict st2 = argumentsDict ?st1 \<and> duplicateArgCounts st2 = duplicateArgCounts ?st1"
      by (rule mapGen_nested_args_frame [OF ex _ object(5)]) simp
    then have "argumentsDict st2 = argumentsDict st" "duplicateArgCounts st2 = duplicateArgCounts st"
      by simp_all
    with renderField_args [of cfg fld 1 True "joinTruthy rs" st2] object(1,7) show ?thesis
      by auto
  next
    case (leaf fld)
    with renderField_args [of cfg fld 1 False "[]" st] show ?thesis
      by auto
  next
    case (union fld types q)
    have "argumentsDict st' = argumentsDict (snd (renderField cfg fld 1 False [] st))"
      using unionPart_nested_args_frame [OF ex _ union(3)] by simp
    with renderField_args [of cfg fld 1 False "[]" st] union(1) show ?thesis
      by auto
  qed
qed

text \<open>
  Claim C8. With \<^verbatim>\<open>excludeNestedArgs\<close> set, a call at a depth greater than 1 returns with
  the operation-wide dictionary of arguments and the counters unchanged, and the text it
  returns, which covers the field and everything below it, holds no opening
  parenthesis when the field and member type names of the schema hold none: no argument
  list is rendered at any call site below the root. A call at depth 1, the root field,
  leaves the dictionary as it was or adds the bindings of the root field's own
  arguments, and nothing else.
\<close>

theorem nested_arguments_excluded:
  assumes ex: "excludeNestedArgs cfg"
      and run: "generateQuery cfg sch fuel cur pt pn d fu st = Some (Inr (r, st'))"
  shows "(1 < d \<longrightarrow> argumentsDict st' = argumentsDict st
                  \<and> duplicateArgCounts st' = duplicateArgCounts st
                  \<and> (parenFreeNames sch \<longrightarrow> parenFree r))
       \<and> (d = 1 \<longrightarrow> (\<exists>fld. getField sch pt cur = Some fld
                  \<and> (argumentsDict st' = argumentsDict st
                     \<or> argumentsDict st'
                         = objectAssign (argumentsDict st)
                             (snd (getFieldArgsDict fld (duplicateArgCounts st) (argumentsDict st))))))"
proof (intro conjI impI)
  assume d: "1 < d"
  from generateQuery_nested_args_frame [OF ex d run]
  show "argumentsDict st' = argumentsDict st" and "duplicateArgCounts st' = duplicateArgCounts st"
    by simp_all
next
  assume d: "1 < d" and names: "parenFreeNames sch"
  from generateQuery_nested_parenFree [OF ex names d run] show "parenFree r" .
next
  assume "d = 1"
  with run have "generateQuery cfg sch fuel cur pt pn 1 fu st = Some (Inr (r, st'))" by simp
  from root_binds_own_arguments [OF ex this]
  show "\<exists>fld. getField sch pt cur = Some fld
         \<and> (argumentsDict st' = argumentsDict st
            \<or> argumentsDict st'
                = objectAssign (argumentsDict st)
                    (snd (getFieldArgsDict fld (duplicateArgCounts st) (argumentsDict st))))" .
qed

theorem nested_arguments_excluded_witness:
  "generateQuery rootOnlyArgsConfig nestedArgsSchema 5 ''u'' ''R'' ''root'' 2 False belowRoot
     = Some (Inr (QueryResult ''        u{\<newline>            ... on A {\<newline>                x\<newline>            }\<newline>        }'', belowRoot))
   \<and> parenFree (QueryResult ''        u{\<newline>            ... on A {\<newline>                x\<newline>            }\<newline>        }'')
   \<and> generateQuery rootOnlyArgsConfig nestedArgsSchema 5 ''root'' ''Query'' ''undefined'' 1 False emptyState
     = Some (Inr (QueryResult ''    root(id: $id){\<newline>        a\<newline>        u{\<newline>            ... on A {\<newline>                x\<newline>            }\<newline>        }\<newline>    }'',
          \<lparr>argumentsDict = [(''id'', \<lparr>arg_name = ''id'', arg_type = ''Int''\<rparr>)],
             duplicateArgCounts = [], crossReferenceKeyList = [''undefinedTorootKey'']\<rparr>))
   \<and> (\<exists>fld. getField nestedArgsSchema ''Query'' ''root'' = Some fld
         \<and> [(''id'', \<lparr>arg_name = ''id'', arg_type = ''Int''\<rparr>)]
             = objectAssign [] (snd (getFieldArgsDict fld [] [])))"
proof -
  have ex: "excludeNestedArgs rootOnlyArgsConfig"
    by code_simp
  have names: "parenFreeNames nestedArgsSchema"
    by code_simp
  have run: "generateQuery rootOnlyArgsConfig nestedArgsSchema 5 ''u'' ''R'' ''root'' 2 False belowRoot
     = Some (Inr (QueryResult ''        u{\<newline>            ... on A {\<newline>                x\<newline>            }\<newline>        }'', belowRoot))"
    by code_simp
  have root: "generateQuery rootOnlyArgsConfig nestedArgsSchema 5 ''root'' ''Query'' ''undefined'' 1 False emptyState
     = Some (Inr (QueryResult ''    root(id: $id){\<newline>        a\<newline>        u{\<newline>            ... on A {\<newline>                x\<newline>            }\<newline>        }\<newline>    }'',
          \<lparr>argumentsDict = [(''id'', \<lparr>arg_name = ''id'', arg_type = ''Int''\<rparr>)],
             duplicateArgCounts = [], crossReferenceKeyList = [''undefinedTorootKey'']\<rparr>))"
    by code_simp
  have two: "(1::nat) < 2"
    by simp
  note below = nested_arguments_excluded [OF ex run, THEN conjunct1, THEN mp, OF two]
  note clean = below [THEN conjunct2, THEN conjunct2, THEN mp, OF names]
  note top = nested_arguments_excluded [OF ex root, THEN conjunct2, THEN mp, OF refl]
  have e: "argumentsDict emptyState = []" "duplicateArgCounts emptyState = []"
    by (simp_all add: emptyState_def)
  from top have "\<exists>fld. getField nestedArgsSchema ''Query'' ''root'' = Some fld
         \<and> [(''id'', \<lparr>arg_name = ''id'', arg_type = ''Int''\<rparr>)]
             = objectAssign [] (snd (getFieldArgsDict fld [] []))"
    unfolding e by auto
  with clean run root show ?thesis
    by blast
qed

section \<open>The depth of the braces\<close>

lemma braceNet_append: "braceNet (a @ b) = braceNet a + braceNet b"
  by (induction a) simp_all

lemma braceMax_nonneg: "0 \<le> braceMax s"
  by (cases s) simp_all

lemma braceMax_append: "braceMax (a @ b) = max (braceMax a) (braceNet a + braceMax b)"
proof (induction a)
  case Nil
  show ?case using braceMax_nonneg [of b] by simp
next
  case (Cons c a)
  then show ?case by simp
qed

lemma braceFree_append [simp]: "braceFree (a @ b) \<longleftrightarrow> braceFree a \<and> braceFree b"
  by (auto simp: braceFree_def)

lemma braceFree_Nil [simp]: "braceFree []"
  by (simp add: braceFree_def)

lemma braceFree_net: "braceFree s \<Longrightarrow> braceNet s = 0"
  by (induction s) (auto simp: braceFree_def braceStep_def)

lemma braceFree_max: "braceFree s \<Longrightarrow> braceMax s = 0"
  by (induction s) (auto simp: braceFree_def braceStep_def)

lemma braceFree_indent [simp]: "braceFree (indent n)"
  by (induction n) (auto simp: indent_def braceFree_def)

lemma braceFree_showNat [simp]: "braceFree (showNat n)"
proof (induction n rule: showNat.induct)
  case (1 n)
  have digit: "braceFree [''0123456789'' ! k]" if "k < 10" for k
  proof -
    from that have "k \<in> {0, 1, 2, 3, 4, 5, 6, 7, 8, 9}" by auto
    then show ?thesis by (auto simp: braceFree_def)
  qed
  show ?case
  proof (cases "n < 10")
    case True
    then show ?thesis by (subst showNat.simps) (simp add: digit)
  next
    case False
    with 1 have "braceFree (showNat (n div 10))" by simp
    moreover have "braceFree [''0123456789'' ! (n mod 10)]" by (rule digit) simp
    ultimately show ?thesis using False by (subst showNat.simps) simp
  qed
qed

lemma braceFree_joinWith:
  "braceFree sep \<Longrightarrow> \<forall>x \<in> set xs. braceFree x \<Longrightarrow> braceFree (joinWith sep xs)"
  by (induction sep xs rule: joinWith.induct) simp_all

lemma nestedWithin_joinWith:
  assumes "0 \<le> k" "\<forall>x \<in> set xs. nestedWithin k x"
  shows "nestedWithin k (joinWith ''\<newline>'' xs)"
  using assms(2)
proof (induction "''\<newline>''" xs rule: joinWith.induct)
  case 1
  with assms(1) show ?case by (simp add: nestedWithin_def)
next
  case (2 x)
  then show ?case by simp
next
  case (3 x y ys)
  then have x: "nestedWithin k x" and r: "nestedWithin k (joinWith ''\<newline>'' (y # ys))" by simp_all
  from x r assms(1) show ?case
    by (simp add: nestedWithin_def braceNet_append braceMax_append braceStep_def)
qed

lemma nestedWithin_braceFree: "braceFree s \<Longrightarrow> 0 \<le> k \<Longrightarrow> nestedWithin k s"
  by (simp add: nestedWithin_def braceFree_net braceFree_max)

lemma nestedWithin_wrap:
  assumes "braceFree pre" "braceFree ind" "nestedWithin k cq" "0 \<le> k"
  shows "nestedWithin (k + 1) (pre @ ''{\<newline>'' @ cq @ ''\<newline>'' @ ind @ ''}'')"
proof -
  have a: "braceNet (''{\<newline>'' @ cq @ ''\<newline>'' @ ind @ ''}'') = 0"
    using assms by (simp add: braceNet_append nestedWithin_def braceFree_net braceStep_def)
  have b: "braceMax (''\<newline>'' @ ind @ ''}'') = 0"
    using assms(2) by (simp add: braceMax_append braceFree_net braceFree_max braceStep_def)
  have c: "braceMax (cq @ ''\<newline>'' @ ind @ ''}'') \<le> k"
    using assms(3,4) b by (simp add: braceMax_append [of cq] nestedWithin_def)
  have d: "braceMax (''{\<newline>'' @ cq @ ''\<newline>'' @ ind @ ''}'') \<le> k + 1"
    using c assms(4) braceMax_nonneg [of "cq @ ''\<newline>'' @ ind @ ''}''"]
    by (simp add: braceStep_def)
  from a d assms(1,4) show ?thesis
    by (simp add: nestedWithin_def braceNet_append [of pre] braceMax_append [of pre]
        braceFree_net braceFree_max)
qed

lemma numericList_set: "numericList counts \<Longrightarrow> numericList (setProperty counts k (Num n))"
  using set_setProperty [of counts k "Num n"] by (auto simp: numericList_def)

lemma plainDict_set:
  "plainDict dict \<Longrightarrow> braceFree k \<Longrightarrow> braceFree (arg_name a) \<Longrightarrow> plainDict (setProperty dict k a)"
  using set_setProperty [of dict k a] by (auto simp: plainDict_def)

lemma bindArg_plain:
  assumes a: "plainArg a" and c: "numericList counts" and d: "plainDict dict"
  shows "numericList (fst (bindArg allArgsDict (counts, dict) a))
       \<and> plainDict (snd (bindArg allArgsDict (counts, dict) a))"
proof -
  from a have inh: "inheritedText (arg_name a) = None" and bf: "braceFree (arg_name a)"
    by (simp_all add: plainArg_def)
  show ?thesis
  proof (cases "map_of counts (arg_name a)")
    case None
    with c d bf show ?thesis
      by (simp add: bindArg_ordinary_name [OF inh] numericList_set plainDict_set braceFree_def
          del: bindArg.simps)
  next
    case (Some v)
    from map_of_SomeD [OF Some] c obtain n where v: "v = Num n"
      by (auto simp: numericList_def)
    with Some c d bf show ?thesis
      by (simp add: bindArg_ordinary_name [OF inh] numericList_set plainDict_set
          del: bindArg.simps)
  qed
qed

lemma foldl_bindArg_plain:
  "\<forall>a \<in> set as. plainArg a \<Longrightarrow> numericList (fst acc) \<Longrightarrow> plainDict (snd acc)
     \<Longrightarrow> numericList (fst (foldl (bindArg allArgsDict) acc as))
       \<and> plainDict (snd (foldl (bindArg allArgsDict) acc as))"
proof (induction as arbitrary: acc)
  case Nil
  then show ?case by simp
next
  case (Cons a as)
  obtain counts dict where acc: "acc = (counts, dict)" by (cases acc)
  from Cons.prems acc have "numericList (fst (bindArg allArgsDict (counts, dict) a))
       \<and> plainDict (snd (bindArg allArgsDict (counts, dict) a))"
    by (intro bindArg_plain) simp_all
  with Cons.IH [of "bindArg allArgsDict (counts, dict) a"] Cons.prems(1) acc show ?case
    by simp
qed

lemma getFieldArgsDict_plain:
  assumes "\<forall>a \<in> set (field_args fld). plainArg a" "numericList counts"
  shows "numericList (fst (getFieldArgsDict fld counts allArgsDict))
       \<and> plainDict (snd (getFieldArgsDict fld counts allArgsDict))"
  unfolding getFieldArgsDict_def
  using assms by (intro foldl_bindArg_plain) (simp_all add: plainDict_def)

lemma braceFree_getArgsToVarsStr: "plainDict dict \<Longrightarrow> braceFree (getArgsToVarsStr dict)"
  unfolding getArgsToVarsStr_def
  by (rule braceFree_joinWith) (auto simp: plainDict_def braceFree_def)

lemma numericCounts_iff: "numericCounts st \<longleftrightarrow> numericList (duplicateArgCounts st)"
  by (auto simp: numericCounts_def numericList_def list_all_iff split: jsval.splits)

lemma renderField_numeric:
  assumes "plainFieldNames fld" "numericCounts st"
  shows "numericCounts (snd (renderField cfg fld d h cq st))"
  using assms getFieldArgsDict_plain [of fld "duplicateArgCounts st" "argumentsDict st"]
  by (auto simp: renderField_def Let_def numericCounts_iff plainFieldNames_def split: prod.splits)

lemma renderField_head_braceFree:
  assumes "plainFieldNames fld" "numericCounts st"
  shows "\<exists>hd. braceFree hd \<and> fst (renderField cfg fld d h cq st)
           = (if h \<and> cq = [] then []
              else hd @ (if cq \<noteq> [] then ''{\<newline>'' @ cq @ ''\<newline>'' @ indent d @ ''}'' else []))"
proof (cases "length (field_args fld) > 0 \<and> (d \<le> 1 \<or> \<not> excludeNestedArgs cfg)")
  case True
  obtain counts dict where g: "getFieldArgsDict fld (duplicateArgCounts st) (argumentsDict st) = (counts, dict)"
    by (cases "getFieldArgsDict fld (duplicateArgCounts st) (argumentsDict st)")
  from assms getFieldArgsDict_plain [of fld "duplicateArgCounts st" "argumentsDict st"] g
  have "plainDict dict" by (simp add: numericCounts_iff plainFieldNames_def)
  then have "braceFree (getArgsToVarsStr dict)" by (rule braceFree_getArgsToVarsStr)
  with assms(1) have "braceFree (indent d @ field_name fld @ ''('' @ getArgsToVarsStr dict @ '')'')"
    by (simp add: plainFieldNames_def) (simp add: braceFree_def)
  moreover have "fst (renderField cfg fld d h cq st)
           = (if h \<and> cq = [] then []
              else (indent d @ field_name fld @ ''('' @ getArgsToVarsStr dict @ '')'')
                   @ (if cq \<noteq> [] then ''{\<newline>'' @ cq @ ''\<newline>'' @ indent d @ ''}'' else []))"
    using True g by (simp add: renderField_def Let_def)
  ultimately show ?thesis by blast
next
  case False
  from assms(1) have "braceFree (indent d @ field_name fld)"
    by (simp add: plainFieldNames_def)
  moreover have "fst (renderField cfg fld d h cq st)
           = (if h \<and> cq = [] then []
              else (indent d @ field_name fld)
                   @ (if cq \<noteq> [] then ''{\<newline>'' @ cq @ ''\<newline>'' @ indent d @ ''}'' else []))"
    using False by (auto simp: renderField_def Let_def)
  ultimately show ?thesis by blast
qed

lemma renderField_nested:
  assumes "plainFieldNames fld" "numericCounts st" "nestedWithin k cq" "0 \<le> k"
  shows "nestedWithin (k + 1) (fst (renderField cfg fld d h cq st))"
proof -
  from renderField_head_braceFree [OF assms(1,2), of cfg d h cq] obtain hd where
    hd: "braceFree hd" and eq: "fst (renderField cfg fld d h cq st)
           = (if h \<and> cq = [] then []
              else hd @ (if cq \<noteq> [] then ''{\<newline>'' @ cq @ ''\<newline>'' @ indent d @ ''}'' else []))"
    by blast
  show ?thesis
  proof (cases "cq = []")
    case True
    with eq hd assms(4) show ?thesis
      by (auto intro: nestedWithin_braceFree)
  next
    case False
    with eq have "fst (renderField cfg fld d h cq st) = hd @ ''{\<newline>'' @ cq @ ''\<newline>'' @ indent d @ ''}''"
      by simp
    with nestedWithin_wrap [OF hd braceFree_indent assms(3,4), of d] show ?thesis by simp
  qed
qed

lemma renderField_leaf_braceFree:
  assumes "plainFieldNames fld" "numericCounts st"
  shows "braceFree (fst (renderField cfg fld d h [] st))"
  using renderField_head_braceFree [OF assms, of cfg d h "[]"] by auto

lemma plainNames_field:
  assumes "plainNames sch" "getField sch pt cur = Some fld"
  shows "plainFieldNames fld"
proof -
  from getField_in_schema [OF assms(2)] obtain fs where
    "(pt, ObjectType fs) \<in> set sch" "fld \<in> set fs" by blast
  then have "fld \<in> set (schemaFields sch)"
    by (force simp: schemaFields_def)
  with assms(1) show ?thesis
    by (auto simp: plainNames_def plainFieldNames_def plainArg_def list_all_iff)
qed

lemma unionFree_getType:
  assumes "unionFree sch"
  shows "getType sch n \<noteq> Some (UnionType ts)"
proof
  assume "getType sch n = Some (UnionType ts)"
  then have "(n, UnionType ts) \<in> set sch"
    by (auto simp: getType_def dest: map_of_SomeD)
  with assms show False
    by (auto simp: unionFree_def list_all_iff)
qed

lemma mapGen_inv:
  assumes step: "\<And>x s y s'. Inv s \<Longrightarrow> gen x s = Some (Inr (y, s')) \<Longrightarrow> Inv s' \<and> P y"
  shows "Inv st \<Longrightarrow> mapGen gen xs st = Some (Inr (ys, st')) \<Longrightarrow> Inv st' \<and> (\<forall>y \<in> set ys. P y)"
proof (induction xs arbitrary: st ys)
  case Nil
  then show ?case by simp
next
  case (Cons x xs)
  from Cons.prems(2) obtain y s1 ys' where
    g: "gen x st = Some (Inr (y, s1))" and m: "mapGen gen xs s1 = Some (Inr (ys', st'))"
    and ys: "ys = y # ys'"
    by (auto split: option.splits sum.splits)
  from step [OF Cons.prems(1) g] have "Inv s1" "P y" by simp_all
  with Cons.IH [OF _ m] ys show ?case by simp
qed

lemma joinTruthy_nested:
  assumes "0 \<le> k" "\<forall>r \<in> set rs. resultWithin k r"
  shows "nestedWithin k (joinTruthy rs)"
  unfolding joinTruthy_def
proof (rule nestedWithin_joinWith [OF assms(1)], rule ballI)
  fix s assume "s \<in> set (map the (filter truthyStr (map queryStrOf rs)))"
  then obtain r where r: "r \<in> set rs" and s: "truthyStr (queryStrOf r)" "s = the (queryStrOf r)"
    by auto
  from assms(2) r have "resultWithin k r" by blast
  with s show "nestedWithin k s" by (cases r) (simp_all add: resultWithin_def)
qed

lemma generateQuery_nesting:
  assumes uf: "unionFree sch" and pn: "plainNames sch"
  shows "numericCounts st \<Longrightarrow> generateQuery cfg sch fuel cur pt pn' d False st = Some (Inr (r, st'))
           \<Longrightarrow> numericCounts st' \<and> resultWithin (max 0 (depthLimit cfg + 1 - int d)) r"
proof (induction fuel arbitrary: cur pt pn' d st r st')
  case 0
  then show ?case by (simp add: generateQuery.simps(1))
next
  case (Suc fuel)
  note num = \<open>numericCounts st\<close>
  from Suc.prems(2) show ?case
  proof (cases rule: generateQuery_SucE)
    case (cut fld fs)
    with num show ?thesis by (simp add: resultWithin_def)
  next
    case (object fld fs rs st2)
    from object(4) have dl: "int d \<le> depthLimit cfg" by simp
    let ?k = "depthLimit cfg - int d"
    have k: "0 \<le> ?k" using dl by simp
    have pf: "plainFieldNames fld" by (rule plainNames_field [OF pn object(1)])
    have num1: "numericCounts (st\<lparr>crossReferenceKeyList := crossReferenceKeyList st @ [crossReferenceKey pn' cur]\<rparr>)"
      using num by (simp add: numericCounts_def)
    have "numericCounts st2 \<and> (\<forall>y \<in> set rs. resultWithin ?k y)"
    proof (rule mapGen_inv [where Inv = numericCounts and P = "resultWithin ?k", OF _ num1])
      show "mapGen (\<lambda>c. generateQuery cfg sch fuel c (stripWrappers (field_type fld)) cur (d + 1) False)
              (childKeys cfg fs)
              (st\<lparr>crossReferenceKeyList := crossReferenceKeyList st @ [crossReferenceKey pn' cur]\<rparr>)
            = Some (Inr (rs, st2))"
        using object(5) by simp
      show "\<And>x s y s'. numericCounts s \<Longrightarrow>
              generateQuery cfg sch fuel x (stripWrappers (field_type fld)) cur (d + 1) False s = Some (Inr (y, s'))
              \<Longrightarrow> numericCounts s' \<and> resultWithin ?k y"
      proof -
        fix x s y s'
        assume "numericCounts s"
          and "generateQuery cfg sch fuel x (stripWrappers (field_type fld)) cur (d + 1) False s = Some (Inr (y, s'))"
        from Suc.IH [OF this]
        have "numericCounts s' \<and> resultWithin (max 0 (depthLimit cfg + 1 - int (d + 1))) y" .
        moreover have "max 0 (depthLimit cfg + 1 - int (d + 1)) = ?k" using dl by simp
        ultimately show "numericCounts s' \<and> resultWithin ?k y" by simp
      qed
    qed
    then have num2: "numericCounts st2" and rs: "\<forall>y \<in> set rs. resultWithin ?k y" by simp_all
    from joinTruthy_nested [OF k rs] have cq: "nestedWithin ?k (joinTruthy rs)" .
    from renderField_nested [OF pf num2 cq k, of cfg d True]
    have "nestedWithin (?k + 1) (fst (renderField cfg fld d True (joinTruthy rs) st2))" .
    moreover have "max 0 (depthLimit cfg + 1 - int d) = ?k + 1" using dl by simp
    ultimately have "resultWithin (max 0 (depthLimit cfg + 1 - int d)) r"
      using object(6) by (simp add: resultWithin_def)
    moreover have "numericCounts st'"
      unfolding object(7) by (rule renderField_numeric [OF pf num2])
    ultimately show ?thesis by simp
  next
    case (leaf fld)
    have pf: "plainFieldNames fld" by (rule plainNames_field [OF pn leaf(1)])
    from renderField_leaf_braceFree [OF pf num, of cfg d False]
    have "nestedWithin (max 0 (depthLimit cfg + 1 - int d)) (fst (renderField cfg fld d False [] st))"
      by (intro nestedWithin_braceFree) simp_all
    with leaf renderField_numeric [OF pf num, of cfg d False "[]"] show ?thesis
      by (simp add: resultWithin_def)
  next
    case (union fld types q)
    with unionFree_getType [OF uf] show ?thesis by blast
  qed
qed

text \<open>
  An object-typed field that is rendered has passed the depth check of line 89: its
  depth, less 2 inside a union fragment, is within the limit.
\<close>

lemma expanded_within_limit:
  assumes run: "generateQuery cfg sch fuel cur pt pn d fu st = Some (Inr (QueryResult q, st'))"
      and obj: "objectTyped sch pt cur"
  shows "(if fu then int d - 2 else int d) \<le> depthLimit cfg"
proof (cases fuel)
  case 0
  with run show ?thesis by (simp add: generateQuery.simps(1))
next
  case (Suc n)
  from run [unfolded Suc] show ?thesis
  proof (cases rule: generateQuery_SucE)
    case (object fld fs rs st2)
    then show ?thesis by simp
  next
    case (leaf fld)
    with obj show ?thesis by (simp add: objectTyped_def)
  next
    case (union fld types q')
    with obj show ?thesis by (simp add: objectTyped_def)
  qed simp
qed

text \<open>
  A field of object type is rendered only when its depth, less 2 when the call is inside
  a union fragment, does not exceed the depth limit. In a schema that declares no union
  type, whose field and argument names hold no brace and whose argument names are not
  names of inherited properties, started with numeric counters, a call outside a union
  fragment at depth \<open>d\<close> returns a text whose braces are balanced and nested at most
  \<open>depthLimit + 1 - d\<close> deep (not at all when that is negative): for the root field, at
  depth 1, the nesting does not exceed the depth limit.
\<close>

lemma brace_nesting_without_unions:
  assumes run: "generateQuery cfg sch fuel cur pt pn' d fu st = Some (Inr (QueryResult q, st'))"
  shows "(objectTyped sch pt cur \<longrightarrow> (if fu then int d - 2 else int d) \<le> depthLimit cfg)
       \<and> (unionFree sch \<and> plainNames sch \<and> numericCounts st \<and> \<not> fu
            \<longrightarrow> braceNet q = 0 \<and> braceMax q \<le> max 0 (depthLimit cfg + 1 - int d))"
proof (intro conjI impI)
  assume "objectTyped sch pt cur"
  with run show "(if fu then int d - 2 else int d) \<le> depthLimit cfg"
    by (rule expanded_within_limit)
next
  assume a: "unionFree sch \<and> plainNames sch \<and> numericCounts st \<and> \<not> fu"
  with run have run': "generateQuery cfg sch fuel cur pt pn' d False st = Some (Inr (QueryResult q, st'))"
    by simp
  from a generateQuery_nesting [OF _ _ _ run']
  show "braceNet q = 0" and "braceMax q \<le> max 0 (depthLimit cfg + 1 - int d)"
    by (simp_all add: resultWithin_def nestedWithin_def)
qed

text \<open>
  Claim C3 (the code departs from it). The braces emitted by \<^verbatim>\<open>generateQuery\<close> would
  never be nested deeper than the depth limit, the levels inside a union fragment counted
  with the adjustment by 2. The depth check of line 89 is made for fields of object type
  only. With depth limit 1, in
  \<^verbatim>\<open>type Query { r: R }  type R { u: U }  union U = A  type A { x: Int }\<close>
  the field \<open>u\<close> of union type is entered at depth 2, outside any fragment, and is
  rendered with its braces: the text of \<open>r\<close> nests braces 3 deep. In
  \<^verbatim>\<open>type Query { r: R }  type R { u: U }  union U = A  type A { v: V }  union V = B
  type B { x: Int }\<close> the union fields \<open>u\<close> and \<open>v\<close> are rendered at depths 2 and 4 and
  the text reaches a nesting of 5, more than the limit and more than the limit plus 2.
  This holds with every recursion budget from 4 on.
\<close>

theorem nested_unions_exceed_depth_limit:
  "generateQuery (limitConfig 1) unionDepthSchema (4 + n) ''u'' ''R'' ''r'' 2 False
       \<lparr>argumentsDict = [], duplicateArgCounts = [], crossReferenceKeyList = [''undefinedTorKey'']\<rparr>
     = Some (Inr (QueryResult ''        u{\<newline>            ... on A {\<newline>                x\<newline>            }\<newline>        }'',
          \<lparr>argumentsDict = [], duplicateArgCounts = [], crossReferenceKeyList = [''undefinedTorKey'']\<rparr>))
   \<and> generateQuery (limitConfig 1) unionDepthSchema (4 + n) ''r'' ''Query'' ''undefined'' 1 False emptyState
     = Some (Inr (QueryResult ''    r{\<newline>        u{\<newline>            ... on A {\<newline>                x\<newline>            }\<newline>        }\<newline>    }'',
          \<lparr>argumentsDict = [], duplicateArgCounts = [], crossReferenceKeyList = [''undefinedTorKey'']\<rparr>))
   \<and> braceMax ''    r{\<newline>        u{\<newline>            ... on A {\<newline>                x\<newline>            }\<newline>        }\<newline>    }'' = 3
   \<and> generateQuery (limitConfig 1) nestedUnionSchema (4 + n) ''r'' ''Query'' ''undefined'' 1 False emptyState
     = Some (Inr (QueryResult ''    r{\<newline>        u{\<newline>            ... on A {\<newline>                v{\<newline>                    ... on B {\<newline>                        x\<newline>                    }\<newline>                }\<newline>            }\<newline>        }\<newline>    }'',
          \<lparr>argumentsDict = [], duplicateArgCounts = [], crossReferenceKeyList = [''undefinedTorKey'']\<rparr>))
   \<and> braceMax ''    r{\<newline>        u{\<newline>            ... on A {\<newline>                v{\<newline>                    ... on B {\<newline>                        x\<newline>                    }\<newline>                }\<newline>            }\<newline>        }\<newline>    }'' = 5
   \<and> depthLimit (limitConfig 1) = 1"
proof -
  have "generateQuery (limitConfig 1) unionDepthSchema 4 ''u'' ''R'' ''r'' 2 False
       \<lparr>argumentsDict = [], duplicateArgCounts = [], crossReferenceKeyList = [''undefinedTorKey'']\<rparr>
     = Some (Inr (QueryResult ''        u{\<newline>            ... on A {\<newline>                x\<newline>            }\<newline>        }'',
          \<lparr>argumentsDict = [], duplicateArgCounts = [], crossReferenceKeyList = [''undefinedTorKey'']\<rparr>))"
    by code_simp
  moreover
  have "generateQuery (limitConfig 1) unionDepthSchema 4 ''r'' ''Query'' ''undefined'' 1 False emptyState
     = Some (Inr (QueryResult ''    r{\<newline>        u{\<newline>            ... on A {\<newline>                x\<newline>            }\<newline>        }\<newline>    }'',
          \<lparr>argumentsDict = [], duplicateArgCounts = [], crossReferenceKeyList = [''undefinedTorKey'']\<rparr>))"
    by code_simp
  moreover
  have "braceMax ''    r{\<newline>        u{\<newline>            ... on A {\<newline>                x\<newline>            }\<newline>        }\<newline>    }'' = 3"
    by code_simp
  moreover
  have "generateQuery (limitConfig 1) nestedUnionSchema 4 ''r'' ''Query'' ''undefined'' 1 False emptyState
     = Some (Inr (QueryResult ''    r{\<newline>        u{\<newline>            ... on A {\<newline>                v{\<newline>                    ... on B {\<newline>                        x\<newline>                    }\<newline>                }\<newline>            }\<newline>        }\<newline>    }'',
          \<lparr>argumentsDict = [], duplicateArgCounts = [], crossReferenceKeyList = [''undefinedTorKey'']\<rparr>))"
    by code_simp
  moreover
  have "braceMax ''    r{\<newline>        u{\<newline>            ... on A {\<newline>                v{\<newline>                    ... on B {\<newline>                        x\<newline>                    }\<newline>                }\<newline>            }\<newline>        }\<newline>    }'' = 5"
    by code_simp
  moreover
  have "depthLimit (limitConfig 1) = 1"
    by code_simp
  ultimately show ?thesis
    by (intro conjI generateQuery_fuel_mono)
qed

section \<open>Termination and omitted fields\<close>

text \<open>
  In a schema without union types every call returns: a budget of
  \<open>depthLimit + 4 - d\<close> nested calls, and at least one, is enough at depth \<open>d\<close>. So the
  calls that do not return are those that meet a union type.
\<close>

lemma mapGen_total:
  assumes "\<And>x s. \<exists>r. gen x s = Some r"
  shows "\<exists>r. mapGen gen xs st = Some r"
proof (induction xs arbitrary: st)
  case Nil
  show ?case by simp
next
  case (Cons x xs)
  from assms [of x st] obtain z where g: "gen x st = Some z" by blast
  show ?case
  proof (cases z)
    case (Inl e)
    with g show ?thesis by simp
  next
    case (Inr p)
    obtain y s1 where p: "p = (y, s1)" by (cases p)
    from Cons.IH [of s1] obtain z2 where m: "mapGen gen xs s1 = Some z2" by blast
    from g Inr p m show ?thesis
      by (cases z2) (auto split: prod.splits)
  qed
qed

lemma terminates_without_unions:
  assumes uf: "unionFree sch"
  shows "1 \<le> fuel \<Longrightarrow> depthLimit cfg + 4 \<le> int fuel + int d
           \<Longrightarrow> \<exists>r. generateQuery cfg sch fuel cur pt pn d fu st = Some r"
proof (induction fuel arbitrary: cur pt pn d fu st)
  case 0
  then show ?case by simp
next
  case (Suc n)
  show ?case
  proof (cases "getField sch pt cur")
    case None
    then show ?thesis by (simp add: generateQuery.simps(2))
  next
    case (Some fld)
    show ?thesis
    proof (cases "getType sch (stripWrappers (field_type fld))")
      case None
      with Some show ?thesis by (simp add: generateQuery.simps(2) Let_def)
    next
      case t: (Some curType)
      show ?thesis
      proof (cases curType)
        case LeafType
        with Some t show ?thesis
          by (simp add: generateQuery.simps(2) Let_def split: prod.splits)
      next
        case (UnionType ts)
        with t unionFree_getType [OF uf] show ?thesis by blast
      next
        case (ObjectType fs)
        show ?thesis
        proof (cases "crossReferenceKey pn cur \<in> set (crossReferenceKeyList st)
                       \<or> (if fu then int d - 2 else int d) > depthLimit cfg")
          case True
          with Some t ObjectType show ?thesis
            by (simp add: generateQuery.simps(2) Let_def)
        next
          case False
          then have "int d \<le> depthLimit cfg + 2" by (auto split: if_splits)
          with Suc.prems have n: "1 \<le> n" "depthLimit cfg + 4 \<le> int n + int (d + 1)" by simp_all
          have "\<exists>r. mapGen (\<lambda>c. generateQuery cfg sch n c (stripWrappers (field_type fld)) cur (d + 1) fu)
                  (childKeys cfg fs) s = Some r" for s
            by (rule mapGen_total) (rule Suc.IH [OF n])
          then obtain z where
            "mapGen (\<lambda>c. generateQuery cfg sch n c (stripWrappers (field_type fld)) cur (d + 1) fu)
               (childKeys cfg fs)
               (if \<not> fu then st\<lparr>crossReferenceKeyList := crossReferenceKeyList st @ [crossReferenceKey pn cur]\<rparr> else st)
             = Some z"
            by blast
          with Some t ObjectType False show ?thesis
            by (cases z) (auto simp: generateQuery.simps(2) Let_def split: prod.splits)
        qed
      qed
    qed
  qed
qed

lemma self_reference_example:
  "generateQuery (limitConfig 100) selfSchema (4 + n) ''a'' ''Query'' ''undefined'' 1 False emptyState
     = Some (Inr (QueryResult ''    a{\<newline>        self{\<newline>            self{\<newline>                name\<newline>            }\<newline>            name\<newline>        }\<newline>        name\<newline>    }'',
          \<lparr>argumentsDict = [], duplicateArgCounts = [],
             crossReferenceKeyList = [''undefinedToaKey'', ''aToselfKey'', ''selfToselfKey'']\<rparr>))"
proof -
  have "generateQuery (limitConfig 100) selfSchema 4 ''a'' ''Query'' ''undefined'' 1 False emptyState
     = Some (Inr (QueryResult ''    a{\<newline>        self{\<newline>            self{\<newline>                name\<newline>            }\<newline>            name\<newline>        }\<newline>        name\<newline>    }'',
          \<lparr>argumentsDict = [], duplicateArgCounts = [],
             crossReferenceKeyList = [''undefinedToaKey'', ''aToselfKey'', ''selfToselfKey'']\<rparr>))"
    by code_simp
  then show ?thesis by (rule generateQuery_fuel_mono)
qed

text \<open>
  An object-typed field whose children produce no text is rendered as the empty text,
  which the caller's filter drops; otherwise its text ends in a non-empty selection
  between braces.
\<close>

lemma renderField_shape:
  "\<exists>hd. fst (renderField cfg fld d h cq st)
          = (if h \<and> cq = [] then []
             else hd @ (if cq \<noteq> [] then ''{\<newline>'' @ cq @ ''\<newline>'' @ indent d @ ''}'' else []))"
proof (cases "length (field_args fld) > 0 \<and> (d \<le> 1 \<or> \<not> excludeNestedArgs cfg)")
  case True
  obtain counts dict where g: "getFieldArgsDict fld (duplicateArgCounts st) (argumentsDict st) = (counts, dict)"
    by (cases "getFieldArgsDict fld (duplicateArgCounts st) (argumentsDict st)")
  have "fst (renderField cfg fld d h cq st)
           = (if h \<and> cq = [] then []
              else (indent d @ field_name fld @ ''('' @ getArgsToVarsStr dict @ '')'')
                   @ (if cq \<noteq> [] then ''{\<newline>'' @ cq @ ''\<newline>'' @ indent d @ ''}'' else []))"
    using True g by (simp add: renderField_def Let_def)
  then show ?thesis by blast
next
  case False
  have "fst (renderField cfg fld d h cq st)
           = (if h \<and> cq = [] then []
              else (indent d @ field_name fld)
                   @ (if cq \<noteq> [] then ''{\<newline>'' @ cq @ ''\<newline>'' @ indent d @ ''}'' else []))"
    using False by (auto simp: renderField_def Let_def)
  then show ?thesis by blast
qed

lemma object_field_without_children_is_omitted:
  assumes run: "generateQuery cfg sch fuel cur pt pn d fu st = Some (Inr (QueryResult q, st'))"
      and obj: "objectTyped sch pt cur"
  shows "q = [] \<or> (\<exists>hd cq. cq \<noteq> [] \<and> q = hd @ ''{\<newline>'' @ cq @ ''\<newline>'' @ indent d @ ''}'')"
proof (cases fuel)
  case 0
  with run show ?thesis by (simp add: generateQuery.simps(1))
next
  case (Suc n)
  from run [unfolded Suc] show ?thesis
  proof (cases rule: generateQuery_SucE)
    case (object fld fs rs st2)
    from renderField_shape [of cfg fld d True "joinTruthy rs" st2] obtain hd where
      hd: "fst (renderField cfg fld d True (joinTruthy rs) st2)
          = (if True \<and> joinTruthy rs = [] then []
             else hd @ (if joinTruthy rs \<noteq> []
                        then ''{\<newline>'' @ joinTruthy rs @ ''\<newline>'' @ indent d @ ''}'' else []))"
      by blast
    show ?thesis
    proof (cases "joinTruthy rs = []")
      case True
      with hd object(6) show ?thesis by simp
    next
      case False
      with hd object(6) have "q = hd @ ''{\<newline>'' @ joinTruthy rs @ ''\<newline>'' @ indent d @ ''}''"
        by simp
      with False show ?thesis by blast
    qed
  next
    case (leaf fld)
    with obj show ?thesis by (simp add: objectTyped_def)
  next
    case (union fld types q')
    with obj show ?thesis by (simp add: objectTyped_def)
  qed simp
qed

end
